theory Spec2Isabelle
  imports Main "HOL-Library.Word"
begin

unbundle bit_operations_syntax

section \<open>Proof-of-work difficulty core (src/pow.cpp)\<close>

text \<open>
  A shallow embedding of \<^verbatim>\<open>pow.cpp\<close>: the two retarget algorithms, the transition
  validator and the proof-of-work check.

  Conventions.
  \<^item> \<^verbatim>\<open>arith_uint256\<close> is \<open>256 word\<close>: addition and multiplication wrap modulo \<open>2 ^ 256\<close>,
    comparison is unsigned. \<^verbatim>\<open>uint256\<close> (an opaque blob of 32 bytes) is the \<open>256 word\<close>
    whose little-endian serialisation is the blob, so that \<^verbatim>\<open>UintToArith256\<close> is the
    identity and byte \<open>i\<close> of the blob is bits \<open>8 * i .. 8 * i + 7\<close>.
  \<^item> \<^verbatim>\<open>int64_t\<close> and \<^verbatim>\<open>int\<close> values are \<open>int\<close>. Signed overflow is undefined behaviour in C++
    and lies outside the model; division and remainder truncate towards zero as in C++.
  \<^item> A call that does not return normally (a failed \<^verbatim>\<open>assert\<close>, a null pointer that is
    dereferenced, a division by zero) is the value \<open>None\<close>.
\<close>

type_synonym uint32_t = "32 word"
type_synonym arith_uint256 = "256 word"
type_synonym uint256 = "256 word"

subsection \<open>C++ integer division\<close>

definition cdiv :: "int \<Rightarrow> int \<Rightarrow> int" where
  "cdiv a b = (if (a < 0) = (b < 0) then \<bar>a\<bar> div \<bar>b\<bar> else - (\<bar>a\<bar> div \<bar>b\<bar>))"

definition cmod :: "int \<Rightarrow> int \<Rightarrow> int" where
  "cmod a b = a - b * cdiv a b"

text \<open>
  The conversion of an \<^verbatim>\<open>int64_t\<close> value to \<^verbatim>\<open>int\<close> (the initialisations of
  \<^verbatim>\<open>nHeightFirst\<close>, lines 120 and 149): modulo \<open>2 ^ 32\<close> into the signed range.
\<close>

definition to_int32 :: "int \<Rightarrow> int" where
  "to_int32 x = (x + 2 ^ 31) mod 2 ^ 32 - 2 ^ 31"

subsection \<open>The 256-bit integer layer and the compact codec\<close>

text \<open>
  Modelled from the spec: \<^verbatim>\<open>arith_uint256\<close> and \<^verbatim>\<open>uint256\<close> (\<^verbatim>\<open>arith_uint256.h\<close>,
  \<^verbatim>\<open>uint256.h\<close>) are not among the sources. The spec's data model: a fixed-width
  unsigned 256-bit integer with add, multiply, divide (integer truncation) and
  comparisons, scaled by small and large scalars. As in the reference implementation the
  repository derives from, a scalar that is multiplied in is taken as a 32-bit unsigned
  value, a scalar that divides is taken as a 64-bit unsigned value, and division by zero
  raises.
\<close>

definition UintToArith256 :: "uint256 \<Rightarrow> arith_uint256" where
  "UintToArith256 a = a"

definition data :: "uint256 \<Rightarrow> nat \<Rightarrow> 8 word" where
  "data a i = ucast (drop_bit (8 * i) a)"

definition scalar32 :: "int \<Rightarrow> arith_uint256" where
  "scalar32 b = word_of_int (b mod 2 ^ 32)"

definition scalar64 :: "int \<Rightarrow> arith_uint256" where
  "scalar64 b = word_of_int (b mod 2 ^ 64)"

definition arith_div :: "arith_uint256 \<Rightarrow> arith_uint256 \<Rightarrow> arith_uint256 option" where
  "arith_div a b = (if b = 0 then None else Some (a div b))"

text \<open>\<^verbatim>\<open>bits()\<close>: the position of the highest set bit plus one, 0 for 0.\<close>

fun bits_nat :: "nat \<Rightarrow> nat" where
  "bits_nat n = (if n = 0 then 0 else Suc (bits_nat (n div 2)))"

declare bits_nat.simps [simp del]

definition bits :: "arith_uint256 \<Rightarrow> nat" where
  "bits x = bits_nat (unat x)"

text \<open>
  Modelled from the spec: \<^verbatim>\<open>SetCompact\<close> (the spec's \<open>decode\<close>) is not among the
  sources. "Unpack exponent (top byte) and mantissa (low 3 bytes); if exponent \<open>\<le> 3\<close>,
  right-shift mantissa; else left-shift by \<open>8 * (exponent - 3)\<close> into a 256-bit field.
  Sign bit is bit 23 of the mantissa region. Overflow is set when the shift would require
  bits beyond the 256-bit width." The mantissa that is shifted is the low 23 bits; the
  two flags are raised only for a mantissa that is not zero.
\<close>

definition SetCompact_flags :: "uint32_t \<Rightarrow> arith_uint256 \<times> bool \<times> bool" where
  "SetCompact_flags nCompact =
     (let nSize = unat nCompact div 2 ^ 24;
          nWord0 = unat nCompact mod 2 ^ 23;
          nWord = (if nSize \<le> 3 then nWord0 div 256 ^ (3 - nSize) else nWord0);
          val = (if nSize \<le> 3 then of_nat nWord
                 else of_nat (nWord * 256 ^ (nSize - 3)));
          fNegative = (nWord \<noteq> 0 \<and> unat nCompact div 2 ^ 23 mod 2 = 1);
          fOverflow = (nWord \<noteq> 0 \<and>
                       (nSize > 34 \<or> (nWord > 255 \<and> nSize > 33) \<or> (nWord > 65535 \<and> nSize > 32)))
      in (val, fNegative, fOverflow))"

definition SetCompact :: "uint32_t \<Rightarrow> arith_uint256" where
  "SetCompact nCompact = fst (SetCompact_flags nCompact)"

text \<open>
  Modelled from the spec: \<^verbatim>\<open>GetCompact\<close> (the spec's \<open>encode\<close>) is not among the
  sources. "Inverse, choosing the minimal exponent such that the mantissa fits in 3 bytes
  with the sign bit clear"; low-order bits are dropped, never rounded up.
\<close>

definition GetCompact :: "arith_uint256 \<Rightarrow> uint32_t" where
  "GetCompact x =
     (let n = unat x;
          nSize = (bits x + 7) div 8;
          nCompact = (if nSize \<le> 3 then n * 256 ^ (3 - nSize) else n div 256 ^ (nSize - 3))
      in if nCompact div 2 ^ 23 mod 2 = 1
         then of_nat (nCompact div 256 + (nSize + 1) * 2 ^ 24)
         else of_nat (nCompact + nSize * 2 ^ 24))"

subsection \<open>Consensus parameters\<close>

text \<open>
  Modelled from the spec: \<^verbatim>\<open>Consensus::Params\<close> (\<^verbatim>\<open>consensus/params.h\<close>) is not among
  the sources; the record holds the fields \<^verbatim>\<open>pow.cpp\<close> reads. The adjustment interval is
  "derived from timespan/spacing".
\<close>

record Params =
  powLimit :: uint256
  nPowTargetSpacing :: int
  nPowTargetTimespan :: int
  nLWMAAveragingWindow :: int
  switchLWMAblock :: int
  fPowAllowMinDifficultyBlocks :: bool
  fPowNoRetargeting :: bool
  enforce_BIP94 :: bool

definition DifficultyAdjustmentInterval :: "Params \<Rightarrow> int option" where
  "DifficultyAdjustmentInterval params =
     (if nPowTargetSpacing params = 0 then None
      else Some (cdiv (nPowTargetTimespan params) (nPowTargetSpacing params)))"

subsection \<open>The proof-of-work check\<close>

definition DeriveTarget :: "uint32_t \<Rightarrow> uint256 \<Rightarrow> arith_uint256 option" where
  "DeriveTarget nBits pow_limit =
     (case SetCompact_flags nBits of
        (bnTarget, fNegative, fOverflow) \<Rightarrow>
          if fNegative \<or> bnTarget = 0 \<or> fOverflow \<or> bnTarget > UintToArith256 pow_limit
          then None
          else Some bnTarget)"

definition CheckProofOfWorkImpl :: "uint256 \<Rightarrow> uint32_t \<Rightarrow> Params \<Rightarrow> bool" where
  "CheckProofOfWorkImpl hash nBits params =
     (case DeriveTarget nBits (powLimit params) of
        None \<Rightarrow> False
      | Some bnTarget \<Rightarrow> if UintToArith256 hash > bnTarget then False else True)"

text \<open>The compile-time switch \<^verbatim>\<open>G_FUZZING\<close> is the first argument.\<close>

definition CheckProofOfWork :: "bool \<Rightarrow> uint256 \<Rightarrow> uint32_t \<Rightarrow> Params \<Rightarrow> bool" where
  "CheckProofOfWork G_FUZZING hash nBits params =
     (if G_FUZZING then (data hash 31 AND 0x80) = 0
      else CheckProofOfWorkImpl hash nBits params)"

subsection \<open>The header chain\<close>

text \<open>
  Modelled from the spec: \<^verbatim>\<open>CBlockIndex\<close>, \<^verbatim>\<open>CBlockHeader\<close> and \<^verbatim>\<open>GetAncestor\<close>
  (\<^verbatim>\<open>chain.h\<close>, \<^verbatim>\<open>chain.cpp\<close>, \<^verbatim>\<open>primitives/block.h\<close>) are not among the sources. The
  spec's header-chain view: a read-only accessor over a linear ancestry giving the height,
  timestamp and compact bits of a point, and the ancestor at any lower height. A block
  index holds the fields \<^verbatim>\<open>pow.cpp\<close> reads and the pointer to its predecessor (null for the
  first block); the block time is the 32-bit header time read as \<^verbatim>\<open>int64_t\<close>.
  \<^verbatim>\<open>GetAncestor\<close> is null for a height below zero or above the block's own.
\<close>

datatype CBlockIndex =
  CBlockIndex (nHeight: int) (nTime: uint32_t) (nBits: uint32_t) (pprev: "CBlockIndex option")

datatype CBlockHeader = CBlockHeader (header_nTime: uint32_t)

definition GetBlockTime :: "CBlockIndex \<Rightarrow> int" where
  "GetBlockTime b = uint (nTime b)"

definition HeaderGetBlockTime :: "CBlockHeader \<Rightarrow> int" where
  "HeaderGetBlockTime b = uint (header_nTime b)"

fun GetAncestor :: "CBlockIndex \<Rightarrow> int \<Rightarrow> CBlockIndex option" where
  "GetAncestor (CBlockIndex h t b pp) height =
     (if height > h \<or> height < 0 then None
      else if height = h then Some (CBlockIndex h t b pp)
      else (case pp of None \<Rightarrow> None | Some p \<Rightarrow> GetAncestor p height))"

text \<open>
  The chains the node builds: heights count up by one from 0 at the first block.
\<close>

fun wf_chain :: "CBlockIndex \<Rightarrow> bool" where
  "wf_chain (CBlockIndex h t b pp) =
     (case pp of None \<Rightarrow> h = 0 | Some p \<Rightarrow> h = nHeight p + 1 \<and> wf_chain p)"

subsection \<open>The legacy periodic retarget\<close>

definition CalculateNextWorkRequired :: "CBlockIndex \<Rightarrow> int \<Rightarrow> Params \<Rightarrow> uint32_t option" where
  "CalculateNextWorkRequired pindexLast nFirstBlockTime params =
     (if fPowNoRetargeting params then Some (nBits pindexLast)
      else
        let nActualTimespan0 = GetBlockTime pindexLast - nFirstBlockTime;
            nActualTimespan1 =
              (if nActualTimespan0 < cdiv (nPowTargetTimespan params) 4
               then cdiv (nPowTargetTimespan params) 4 else nActualTimespan0);
            nActualTimespan =
              (if nActualTimespan1 > nPowTargetTimespan params * 4
               then nPowTargetTimespan params * 4 else nActualTimespan1);
            bnPowLimit = UintToArith256 (powLimit params);
            base =
              (if enforce_BIP94 params then
                 (case DifficultyAdjustmentInterval params of
                    None \<Rightarrow> None
                  | Some interval \<Rightarrow>
                      (case GetAncestor pindexLast
                              (to_int32 (nHeight pindexLast - (interval - 1))) of
                         None \<Rightarrow> None
                       | Some pindexFirst \<Rightarrow> Some (SetCompact (nBits pindexFirst))))
               else Some (SetCompact (nBits pindexLast)))
        in case base of
             None \<Rightarrow> None
           | Some bnNew0 \<Rightarrow>
               (case arith_div (bnNew0 * scalar32 nActualTimespan)
                       (scalar64 (nPowTargetTimespan params)) of
                  None \<Rightarrow> None
                | Some bnNew \<Rightarrow>
                    Some (GetCompact (if bnNew > bnPowLimit then bnPowLimit else bnNew))))"

text \<open>
  The loop of lines 110-112: step to the predecessor while there is one, the height is
  not a multiple of the interval and the bits are the power-limit bits.
\<close>

fun skip_min_difficulty :: "int \<Rightarrow> uint32_t \<Rightarrow> CBlockIndex \<Rightarrow> CBlockIndex" where
  "skip_min_difficulty interval nProofOfWorkLimit (CBlockIndex h t b pp) =
     (case pp of
        None \<Rightarrow> CBlockIndex h t b pp
      | Some p \<Rightarrow>
          if cmod h interval \<noteq> 0 \<and> b = nProofOfWorkLimit
          then skip_min_difficulty interval nProofOfWorkLimit p
          else CBlockIndex h t b pp)"

definition BitcoinGetNextWorkRequired ::
  "CBlockIndex option \<Rightarrow> CBlockHeader \<Rightarrow> Params \<Rightarrow> uint32_t option" where
  "BitcoinGetNextWorkRequired pindexLast pblock params =
     (case pindexLast of
        None \<Rightarrow> None
      | Some tip \<Rightarrow>
          let nProofOfWorkLimit = GetCompact (UintToArith256 (powLimit params)) in
          (case DifficultyAdjustmentInterval params of
             None \<Rightarrow> None
           | Some interval \<Rightarrow>
               if interval = 0 then None
               else if cmod (nHeight tip + 1) interval \<noteq> 0 then
                 (if fPowAllowMinDifficultyBlocks params then
                    (if HeaderGetBlockTime pblock
                          > GetBlockTime tip + nPowTargetSpacing params * 2
                     then Some nProofOfWorkLimit
                     else Some (nBits (skip_min_difficulty interval nProofOfWorkLimit tip)))
                  else Some (nBits tip))
               else
                 (let nHeightFirst = to_int32 (nHeight tip - (interval - 1)) in
                  if nHeightFirst < 0 then None
                  else (case GetAncestor tip nHeightFirst of
                          None \<Rightarrow> None
                        | Some pindexFirst \<Rightarrow>
                            CalculateNextWorkRequired tip (GetBlockTime pindexFirst) params))))"

subsection \<open>The weighted moving-average retarget\<close>

text \<open>
  The loop of lines 55-78, from \<open>i\<close> to \<open>height\<close>, with the running weight, previous
  timestamp and sum as arguments.
\<close>

function lwma_loop ::
  "CBlockIndex \<Rightarrow> int \<Rightarrow> int \<Rightarrow> int \<Rightarrow> int \<Rightarrow> int \<Rightarrow> arith_uint256 \<Rightarrow> arith_uint256 option" where
  "lwma_loop pIndexLast T height i weight previousTimestamp sumTarget =
     (if i \<le> height then
        (case GetAncestor pIndexLast i of
           None \<Rightarrow> None
         | Some block \<Rightarrow>
             let thisTimestamp =
                   (if GetBlockTime block > previousTimestamp
                    then GetBlockTime block else previousTimestamp + 1);
                 solveTime0 = thisTimestamp - previousTimestamp;
                 minSolveTime = cdiv T 6;
                 maxSolveTime = 6 * T;
                 solveTime =
                   (if solveTime0 < minSolveTime then minSolveTime
                    else if solveTime0 > maxSolveTime then maxSolveTime
                    else solveTime0);
                 target = SetCompact (nBits block)
             in lwma_loop pIndexLast T height (i + 1) (weight + 1) thisTimestamp
                  (sumTarget + target * scalar32 solveTime * scalar32 weight))
      else Some sumTarget)"
  by pat_completeness auto
termination
  by (relation "measure (\<lambda>(p, T, height, i, w, ts, s). nat (height + 1 - i))") auto

declare lwma_loop.simps [simp del]

definition GetNextWorkRequired ::
  "CBlockIndex option \<Rightarrow> CBlockHeader \<Rightarrow> Params \<Rightarrow> uint32_t option" where
  "GetNextWorkRequired pIndexLast pBlock params =
     (case pIndexLast of
        None \<Rightarrow> None
      | Some tip \<Rightarrow>
          let powLimit' = UintToArith256 (powLimit params);
              height = nHeight tip;
              T = nPowTargetSpacing params;
              N = nLWMAAveragingWindow params
          in
          if height + 1 < N then Some (GetCompact powLimit')
          else if height < switchLWMAblock params
          then BitcoinGetNextWorkRequired pIndexLast pBlock params
          else
            let prevTarget = SetCompact (nBits tip) in
            (case arith_div (prevTarget * scalar32 6) (scalar64 5) of
               None \<Rightarrow> None
             | Some easingTarget \<Rightarrow>
            (case arith_div (prevTarget * scalar32 2) (scalar64 3) of
               None \<Rightarrow> None
             | Some tighteningTarget \<Rightarrow>
            let k = cdiv (N * (N + 1) * T) 2 in
            (case GetAncestor tip (height - N + 1) of
               None \<Rightarrow> None
             | Some blockPreviousTimestamp \<Rightarrow>
            (case lwma_loop tip T height (height - N + 1) 1
                    (GetBlockTime blockPreviousTimestamp) 0 of
               None \<Rightarrow> None
             | Some sumTarget \<Rightarrow>
            (case arith_div sumTarget (scalar64 k) of
               None \<Rightarrow> None
             | Some nextTarget \<Rightarrow>
                 Some (GetCompact
                   (if nextTarget > powLimit' then powLimit'
                    else if nextTarget > easingTarget then easingTarget
                    else if nextTarget < tighteningTarget then tighteningTarget
                    else nextTarget))))))))"

subsection \<open>The transition validator\<close>

definition PermittedDifficultyTransition ::
  "Params \<Rightarrow> int \<Rightarrow> uint32_t \<Rightarrow> uint32_t \<Rightarrow> bool option" where
  "PermittedDifficultyTransition params height old_nbits new_nbits =
     (if fPowAllowMinDifficultyBlocks params then Some True
      else
        (case DifficultyAdjustmentInterval params of
           None \<Rightarrow> None
         | Some interval \<Rightarrow>
             if interval = 0 then None
             else if cmod height interval = 0 then
               (let smallest_timespan = cdiv (nPowTargetTimespan params) 4;
                    largest_timespan = nPowTargetTimespan params * 4;
                    pow_limit = UintToArith256 (powLimit params);
                    observed_new_target = SetCompact new_nbits
                in
                (case arith_div (SetCompact old_nbits * scalar32 largest_timespan)
                        (scalar64 (nPowTargetTimespan params)) of
                   None \<Rightarrow> None
                 | Some largest0 \<Rightarrow>
                     let largest_difficulty_target =
                           (if largest0 > pow_limit then pow_limit else largest0);
                         maximum_new_target =
                           SetCompact (GetCompact largest_difficulty_target)
                     in
                     if maximum_new_target < observed_new_target then Some False
                     else
                       (case arith_div (SetCompact old_nbits * scalar32 smallest_timespan)
                               (scalar64 (nPowTargetTimespan params)) of
                          None \<Rightarrow> None
                        | Some smallest0 \<Rightarrow>
                            let smallest_difficulty_target =
                                  (if smallest0 > pow_limit then pow_limit else smallest0);
                                minimum_new_target =
                                  SetCompact (GetCompact smallest_difficulty_target)
                            in
                            if minimum_new_target > observed_new_target then Some False
                            else Some True)))
             else if old_nbits \<noteq> new_nbits then Some False
             else Some True))"

subsection \<open>Vocabulary of the statements\<close>

text \<open>The values an \<^verbatim>\<open>int64_t\<close> can hold.\<close>

definition is_int64 :: "int \<Rightarrow> bool" where
  "is_int64 x = (- (2 ^ 63) \<le> x \<and> x < 2 ^ 63)"

text \<open>
  The bound of the transition validator for one extreme timespan as lines 181-193 and
  197-209 compute it: the product is taken modulo \<open>2 ^ 256\<close> with the timespan as a
  32-bit scalar.
\<close>

definition computed_bound :: "Params \<Rightarrow> uint32_t \<Rightarrow> int \<Rightarrow> arith_uint256" where
  "computed_bound params old_nbits timespan =
     SetCompact (GetCompact
       (min (SetCompact old_nbits * scalar32 timespan div scalar64 (nPowTargetTimespan params))
            (UintToArith256 (powLimit params))))"

text \<open>
  The same bound in the spec's words, in exact arithmetic on natural numbers: the decoded
  old target scaled by the timespan over the target timespan (truncating), clamped to the
  power-limit, then round-tripped through the compact encoding.
\<close>

definition transition_bound :: "Params \<Rightarrow> uint32_t \<Rightarrow> int \<Rightarrow> arith_uint256" where
  "transition_bound params old_nbits timespan =
     SetCompact (GetCompact (of_nat
       (min (unat (SetCompact old_nbits) * nat timespan div nat (nPowTargetTimespan params))
            (unat (UintToArith256 (powLimit params))))))"

text \<open>The legacy clamp of the actual timespan to \<open>[timespan / 4, timespan * 4]\<close>.\<close>

definition clamp_timespan :: "Params \<Rightarrow> int \<Rightarrow> int" where
  "clamp_timespan params t =
     min (max t (cdiv (nPowTargetTimespan params) 4)) (nPowTargetTimespan params * 4)"

text \<open>
  The base value of the legacy retarget as lines 145-154 compute it: the previous block's
  target, or with the first-block-of-period flag the target of the first block of the
  period.
\<close>

definition retarget_base :: "Params \<Rightarrow> CBlockIndex \<Rightarrow> arith_uint256 option" where
  "retarget_base params pindexLast =
     (if enforce_BIP94 params then
        (case DifficultyAdjustmentInterval params of
           None \<Rightarrow> None
         | Some interval \<Rightarrow>
             map_option (\<lambda>pindexFirst. SetCompact (nBits pindexFirst))
               (GetAncestor pindexLast (to_int32 (nHeight pindexLast - (interval - 1)))))
      else Some (SetCompact (nBits pindexLast)))"

text \<open>
  The backward walk with a bound on the number of steps: \<open>None\<close> when the bound is used
  up before the loop condition fails.
\<close>

fun skip_min_difficulty_fuel ::
  "nat \<Rightarrow> int \<Rightarrow> uint32_t \<Rightarrow> CBlockIndex \<Rightarrow> CBlockIndex option" where
  "skip_min_difficulty_fuel n interval nProofOfWorkLimit (CBlockIndex h t b pp) =
     (case pp of
        None \<Rightarrow> Some (CBlockIndex h t b pp)
      | Some p \<Rightarrow>
          if cmod h interval \<noteq> 0 \<and> b = nProofOfWorkLimit
          then (case n of
                  0 \<Rightarrow> None
                | Suc m \<Rightarrow> skip_min_difficulty_fuel m interval nProofOfWorkLimit p)
          else Some (CBlockIndex h t b pp))"

text \<open>The clamp of a solve time to \<open>[T / 6, 6 * T]\<close> (lines 63-70).\<close>

definition clamp_solve_time :: "int \<Rightarrow> int \<Rightarrow> int" where
  "clamp_solve_time T solveTime =
     (if solveTime < cdiv T 6 then cdiv T 6
      else if solveTime > 6 * T then 6 * T
      else solveTime)"

text \<open>
  The weighted moving-average loop in the spec's words. The window is the blocks at the
  heights \<open>i\<close> to \<open>height\<close>, oldest first, if the chain has them all.
\<close>

definition window :: "CBlockIndex \<Rightarrow> int \<Rightarrow> int \<Rightarrow> CBlockIndex list option" where
  "window tip i height = those (map (GetAncestor tip) [i..height])"

text \<open>
  The solve times before the clamp: each block's effective timestamp minus the previous
  effective timestamp, where a timestamp that does not exceed the previous effective one
  is replaced by previous + 1.
\<close>

fun solve_times :: "int \<Rightarrow> CBlockIndex list \<Rightarrow> int list" where
  "solve_times previous [] = []"
| "solve_times previous (b # bs) =
     (if GetBlockTime b > previous
      then (GetBlockTime b - previous) # solve_times (GetBlockTime b) bs
      else ((previous + 1) - previous) # solve_times (previous + 1) bs)"

text \<open>
  The sum of target * clamped solve time * weight over the window, with the weight
  counting up by one per block.
\<close>

fun weighted_sum ::
  "int \<Rightarrow> int \<Rightarrow> arith_uint256 \<Rightarrow> CBlockIndex list \<Rightarrow> int list \<Rightarrow> arith_uint256" where
  "weighted_sum T weight acc (b # bs) (st # sts) =
     weighted_sum T (weight + 1)
       (acc + SetCompact (nBits b) * scalar32 (clamp_solve_time T st) * scalar32 weight) bs sts"
| "weighted_sum T weight acc bs sts = acc"

subsection \<open>Example inputs\<close>

text \<open>
  A chain is written newest block first, as (time, bits) pairs; heights count down to 0.
\<close>

fun mk_chain :: "(uint32_t \<times> uint32_t) list \<Rightarrow> CBlockIndex option" where
  "mk_chain [] = None"
| "mk_chain ((t, b) # older) = Some (CBlockIndex (int (length older)) t b (mk_chain older))"

definition example_params :: Params where
  "example_params =
     \<lparr> powLimit = 0x00000000ffffffffffffffffffffffffffffffffffffffffffffffffffffffff,
       nPowTargetSpacing = 90,
       nPowTargetTimespan = 900,
       nLWMAAveragingWindow = 9,
       switchLWMAblock = 100,
       fPowAllowMinDifficultyBlocks = False,
       fPowNoRetargeting = False,
       enforce_BIP94 = False \<rparr>"

text \<open>
  Ten blocks of the legacy era, heights 0 to 9, mined exactly 90 seconds apart, all with
  the same bits.
\<close>

definition on_schedule_chain :: "CBlockIndex option" where
  "on_schedule_chain = mk_chain
     [(1000810, 0x1c00ffff), (1000720, 0x1c00ffff), (1000630, 0x1c00ffff),
      (1000540, 0x1c00ffff), (1000450, 0x1c00ffff), (1000360, 0x1c00ffff),
      (1000270, 0x1c00ffff), (1000180, 0x1c00ffff), (1000090, 0x1c00ffff),
      (1000000, 0x1c00ffff)]"

text \<open>
  Seven blocks, heights 0 to 6, the two newest with the power-limit bits.
\<close>

definition min_difficulty_tip :: CBlockIndex where
  "min_difficulty_tip = the (mk_chain
     [(1000900, 0x1d00ffff), (1000600, 0x1d00ffff), (1000360, 0x1c00ffff),
      (1000270, 0x1c00ffff), (1000180, 0x1c00ffff), (1000090, 0x1c00ffff),
      (1000000, 0x1c00ffff)])"

text \<open>
  Nine blocks, heights 0 to 8, mined 6 seconds apart, except that the block at height 4
  repeats the timestamp of the block at height 3.
\<close>

definition repeat_chain :: "CBlockIndex" where
  "repeat_chain = the (mk_chain
     [(1000042, 0x1c00ffff), (1000036, 0x1c00ffff), (1000030, 0x1c00ffff),
      (1000024, 0x1c00ffff), (1000018, 0x1c00ffff), (1000018, 0x1c00ffff),
      (1000012, 0x1c00ffff), (1000006, 0x1c00ffff), (1000000, 0x1c00ffff)])"


section \<open>Properties\<close>

subsection \<open>Arithmetic helpers\<close>

lemma to_int32_id: "- (2 ^ 31) \<le> x \<Longrightarrow> x < 2 ^ 31 \<Longrightarrow> to_int32 x = x"
  by (simp add: to_int32_def)

lemma cdiv_nonneg: "0 \<le> a \<Longrightarrow> 0 < b \<Longrightarrow> cdiv a b = a div b"
  by (simp add: cdiv_def)

lemma cmod_eq_0_iff: "b \<noteq> 0 \<Longrightarrow> (cmod a b = 0) = (b dvd a)"
proof -
  assume b: "b \<noteq> 0"
  have abs: "\<bar>cmod a b\<bar> = \<bar>a\<bar> mod \<bar>b\<bar>"
  proof -
    have e: "\<bar>a\<bar> = \<bar>b\<bar> * (\<bar>a\<bar> div \<bar>b\<bar>) + \<bar>a\<bar> mod \<bar>b\<bar>" by simp
    have m: "0 \<le> \<bar>a\<bar> mod \<bar>b\<bar>" using b by simp
    show ?thesis
    proof (cases "0 \<le> a")
      case a: True
      show ?thesis
      proof (cases "0 < b")
        case True
        with a have "cmod a b = a - b * (a div b)" by (simp add: cmod_def cdiv_def)
        also have "\<dots> = a mod b" by (simp add: minus_mult_div_eq_mod)
        finally show ?thesis using a True by simp
      next
        case False
        with b have bn: "b < 0" by simp
        show ?thesis
        proof (cases "a = 0")
          case True then show ?thesis by (simp add: cmod_def cdiv_def)
        next
          case False
          with a bn have "cmod a b = a - \<bar>b\<bar> * (a div \<bar>b\<bar>)" by (simp add: cmod_def cdiv_def)
          also have "\<dots> = a mod \<bar>b\<bar>" by (simp only: minus_mult_div_eq_mod)
          finally show ?thesis using a bn by simp
        qed
      qed
    next
      case False
      then have an: "a < 0" by simp
      show ?thesis
      proof (cases "0 < b")
        case True
        with an have "cmod a b = a + \<bar>b\<bar> * (\<bar>a\<bar> div \<bar>b\<bar>)" by (simp add: cmod_def cdiv_def)
        also have "\<dots> = - (\<bar>a\<bar> - \<bar>b\<bar> * (\<bar>a\<bar> div \<bar>b\<bar>))" using an by simp
        also have "\<dots> = - (\<bar>a\<bar> mod \<bar>b\<bar>)" by (simp only: minus_mult_div_eq_mod)
        finally show ?thesis using m by simp
      next
        case False
        with b have bn: "b < 0" by simp
        with an have "cmod a b = a + \<bar>b\<bar> * (\<bar>a\<bar> div \<bar>b\<bar>)" by (simp add: cmod_def cdiv_def)
        also have "\<dots> = - (\<bar>a\<bar> - \<bar>b\<bar> * (\<bar>a\<bar> div \<bar>b\<bar>))" using an by simp
        also have "\<dots> = - (\<bar>a\<bar> mod \<bar>b\<bar>)" by (simp only: minus_mult_div_eq_mod)
        finally show ?thesis using m by simp
      qed
    qed
  qed
  have "(cmod a b = 0) = (\<bar>cmod a b\<bar> = 0)" by simp
  also have "\<dots> = (\<bar>a\<bar> mod \<bar>b\<bar> = 0)" by (simp only: abs)
  also have "\<dots> = (\<bar>b\<bar> dvd \<bar>a\<bar>)" by (simp add: dvd_eq_mod_eq_0)
  also have "\<dots> = (b dvd a)" by simp
  finally show ?thesis .
qed

lemma cmod_nonneg: "0 \<le> a \<Longrightarrow> 0 < b \<Longrightarrow> cmod a b = a mod b"
  by (simp add: cmod_def cdiv_def minus_mult_div_eq_mod)

lemma cmod_ne_0_iff_mod: "i \<noteq> 0 \<Longrightarrow> (cmod h i \<noteq> 0) = (h mod \<bar>i\<bar> \<noteq> 0)"
  by (simp add: cmod_eq_0_iff dvd_eq_mod_eq_0 [symmetric])

lemma mod_pred: "(0::int) < m \<Longrightarrow> h mod m \<noteq> 0 \<Longrightarrow> (h - 1) mod m = h mod m - 1"
proof -
  assume m: "0 < m" and nz: "h mod m \<noteq> 0"
  have "0 \<le> h mod m" "h mod m < m" using m by simp_all
  with nz have r: "0 \<le> h mod m - 1" "h mod m - 1 < m" by simp_all
  have "(h - 1) mod m = (h mod m - 1) mod m" by (simp add: mod_diff_left_eq)
  also have "\<dots> = h mod m - 1" using r by (rule mod_pos_pos_trivial)
  finally show ?thesis .
qed

lemma pow256_split: "a + b = c \<Longrightarrow> (256::nat) ^ a * 256 ^ b = 256 ^ c"
  by (auto simp: power_add)

subsection \<open>The codec in terms of natural numbers\<close>

lemma unat_max256: "unat (- 1 :: 256 word) = 2 ^ 256 - 1"
  by (simp add: unsigned_minus_1_eq_mask mask_eq_exp_minus_1)

lemma unat_of_nat256: "unat (of_nat n :: 256 word) = n mod 2 ^ 256"
  by (simp add: unat_of_nat)

lemma unat_SetCompact:
  "unat (SetCompact nb) =
     (if unat nb div 2 ^ 24 \<le> 3 then unat nb mod 2 ^ 23 div 256 ^ (3 - unat nb div 2 ^ 24)
      else (unat nb mod 2 ^ 23 * 256 ^ (unat nb div 2 ^ 24 - 3)) mod 2 ^ 256)"
proof (cases "unat nb div 2 ^ 24 \<le> 3")
  case True
  have "unat nb mod 2 ^ 23 div 256 ^ (3 - unat nb div 2 ^ 24) \<le> unat nb mod 2 ^ 23"
    by (rule div_le_dividend)
  also have "\<dots> < 2 ^ 23" by simp
  finally have "unat nb mod 2 ^ 23 div 256 ^ (3 - unat nb div 2 ^ 24) < 2 ^ 256"
    by simp
  with True show ?thesis
    by (simp add: SetCompact_def SetCompact_flags_def Let_def unat_of_nat256
        del: of_nat_mult of_nat_power)
next
  case False
  then show ?thesis
    by (simp add: SetCompact_def SetCompact_flags_def Let_def unat_of_nat256
        del: of_nat_mult of_nat_power)
qed

lemma SetCompact_not_max: "SetCompact nb \<noteq> - 1"
proof
  assume a: "SetCompact nb = - 1"
  have eq: "unat (SetCompact nb) = 2 ^ 256 - 1"
    by (simp only: a unat_max256)
  show False
  proof (cases "unat nb div 2 ^ 24 \<le> 3")
    case True
    have "unat nb mod 2 ^ 23 div 256 ^ (3 - unat nb div 2 ^ 24) \<le> unat nb mod 2 ^ 23"
      by (rule div_le_dividend)
    also have "\<dots> < 2 ^ 23" by simp
    finally have "unat (SetCompact nb) < 2 ^ 23"
      using True by (simp only: unat_SetCompact if_True)
    with eq show False by simp
  next
    case False
    then have k: "unat nb div 2 ^ 24 - 3 > 0" by simp
    have "(256::nat) dvd 256 ^ (unat nb div 2 ^ 24 - 3)" using k by (simp add: dvd_power)
    then have "(256::nat) dvd unat nb mod 2 ^ 23 * 256 ^ (unat nb div 2 ^ 24 - 3)" by simp
    moreover have "(256::nat) dvd 2 ^ 256" by simp
    ultimately have
      "(256::nat) dvd (unat nb mod 2 ^ 23 * 256 ^ (unat nb div 2 ^ 24 - 3)) mod 2 ^ 256"
      by (simp only: dvd_mod)
    then have "(256::nat) dvd unat (SetCompact nb)"
      using False by (simp only: unat_SetCompact if_False)
    with eq show False by simp
  qed
qed

lemma bits_nat_upper: "n < 2 ^ bits_nat n"
proof (induction n rule: bits_nat.induct)
  case (1 n)
  show ?case
  proof (cases "n = 0")
    case True
    then show ?thesis by (simp add: bits_nat.simps)
  next
    case False
    with 1 have "n div 2 < 2 ^ bits_nat (n div 2)" by simp
    then have "n < 2 * 2 ^ bits_nat (n div 2)" by linarith
    with False show ?thesis by (simp add: bits_nat.simps [of n])
  qed
qed

lemma bits_nat_lower: "0 < n \<Longrightarrow> 2 ^ (bits_nat n - 1) \<le> n"
proof (induction n rule: bits_nat.induct)
  case (1 n)
  show ?case
  proof (cases "n div 2 = 0")
    case True
    with 1 have "n = 1" by linarith
    then show ?thesis by (simp add: bits_nat.simps)
  next
    case False
    with 1 have ih: "2 ^ (bits_nat (n div 2) - 1) \<le> n div 2" by simp
    from False have "bits_nat (n div 2) > 0" by (simp add: bits_nat.simps [of "n div 2"])
    then have "(2::nat) ^ bits_nat (n div 2) = 2 * 2 ^ (bits_nat (n div 2) - 1)"
      by (cases "bits_nat (n div 2)") simp_all
    with ih have "2 ^ bits_nat (n div 2) \<le> n" by linarith
    with 1 show ?thesis by (simp add: bits_nat.simps [of n])
  qed
qed

lemma bits_nat_pos: "0 < n \<Longrightarrow> 0 < bits_nat n"
  by (simp add: bits_nat.simps [of n])

lemma bits_nat_le: "n < 2 ^ k \<Longrightarrow> bits_nat n \<le> k"
proof (rule ccontr)
  assume n: "n < 2 ^ k" and "\<not> bits_nat n \<le> k"
  then have k: "k \<le> bits_nat n - 1" by simp
  then have pos: "0 < n" using \<open>\<not> bits_nat n \<le> k\<close> by (cases "n = 0") (simp_all add: bits_nat.simps)
  have "(2::nat) ^ k \<le> 2 ^ (bits_nat n - 1)" using k by (simp add: power_increasing)
  also have "\<dots> \<le> n" using pos by (rule bits_nat_lower)
  finally show False using n by simp
qed

lemma nbytes_upper: "n < 256 ^ ((bits_nat n + 7) div 8)"
proof -
  have "n < 2 ^ bits_nat n" by (rule bits_nat_upper)
  also have "(2::nat) ^ bits_nat n \<le> 2 ^ (8 * ((bits_nat n + 7) div 8))"
    by (rule power_increasing) auto
  also have "\<dots> = 256 ^ ((bits_nat n + 7) div 8)"
    by (simp add: power_mult)
  finally show ?thesis .
qed

lemma nbytes_lower: "0 < n \<Longrightarrow> 256 ^ ((bits_nat n + 7) div 8 - 1) \<le> n"
proof -
  assume pos: "0 < n"
  then have "0 < bits_nat n" by (rule bits_nat_pos)
  then have "8 * ((bits_nat n + 7) div 8 - 1) \<le> bits_nat n - 1" by linarith
  then have "(2::nat) ^ (8 * ((bits_nat n + 7) div 8 - 1)) \<le> 2 ^ (bits_nat n - 1)"
    by (simp add: power_increasing)
  also have "\<dots> \<le> n" using pos by (rule bits_nat_lower)
  finally show ?thesis by (simp add: power_mult)
qed

lemma nbytes_le32: "n < 2 ^ 256 \<Longrightarrow> (bits_nat n + 7) div 8 \<le> 32"
  using bits_nat_le [of n 256] by linarith

lemma mantissa_range:
  assumes pos: "0 < n"
  defines "s \<equiv> (bits_nat n + 7) div 8"
  defines "c \<equiv> (if s \<le> 3 then n * 256 ^ (3 - s) else n div 256 ^ (s - 3))"
  shows "256 ^ 2 \<le> c \<and> c < 256 ^ 3"
proof -
  have s1: "1 \<le> s" using bits_nat_pos [OF pos] by (simp add: s_def)
  have up: "n < 256 ^ s" unfolding s_def by (rule nbytes_upper)
  have lo: "256 ^ (s - 1) \<le> n" unfolding s_def using pos by (rule nbytes_lower)
  show ?thesis
  proof (cases "s \<le> 3")
    case True
    have e1: "(256::nat) ^ (s - 1) * 256 ^ (3 - s) = 256 ^ 2"
      by (rule pow256_split) (use True s1 in simp)
    have e2: "(256::nat) ^ s * 256 ^ (3 - s) = 256 ^ 3"
      by (rule pow256_split) (use True in simp)
    have "256 ^ (s - 1) * 256 ^ (3 - s) \<le> n * 256 ^ (3 - s)"
      using lo by (rule mult_le_mono1)
    moreover have "n * 256 ^ (3 - s) < 256 ^ s * 256 ^ (3 - s)"
      using up by simp
    ultimately show ?thesis using True by (simp only: c_def e1 e2 if_True)
  next
    case False
    then have s3: "3 < s" by simp
    have e1: "(256::nat) ^ 2 * 256 ^ (s - 3) = 256 ^ (s - 1)"
      by (rule pow256_split) (use s3 in simp)
    have e2: "(256::nat) ^ 3 * 256 ^ (s - 3) = 256 ^ s"
      by (rule pow256_split) (use s3 in simp)
    have "256 ^ 2 \<le> n div 256 ^ (s - 3)"
      using lo by (simp only: less_eq_div_iff_mult_less_eq zero_less_power zero_less_numeral e1)
    moreover have "n div 256 ^ (s - 3) < 256 ^ 3"
      by (rule less_mult_imp_div_less) (simp only: e2 up)
    ultimately show ?thesis using False by (simp only: c_def if_False)
  qed
qed

lemma GetCompact_nat:
  assumes nz: "x \<noteq> 0"
  shows "\<exists>m e. GetCompact x = of_nat (m + e * 2 ^ 24) \<and> 2 ^ 15 \<le> m \<and> m < 2 ^ 23 \<and> e \<le> 33
           \<and> (if e \<le> 3 then m = unat x * 256 ^ (3 - e) else m = unat x div 256 ^ (e - 3))"
proof -
  define n where "n = unat x"
  define s where "s = (bits_nat n + 7) div 8"
  define c where "c = (if s \<le> 3 then n * 256 ^ (3 - s) else n div 256 ^ (s - 3))"
  have pos: "0 < n" using nz by (simp add: n_def unat_gt_0)
  have n256: "n < 2 ^ 256" unfolding n_def using unsigned_less [of x] by simp
  have s32: "s \<le> 32" unfolding s_def using n256 by (rule nbytes_le32)
  have s1: "1 \<le> s" using bits_nat_pos [OF pos] by (simp add: s_def)
  have range: "256 ^ 2 \<le> c \<and> c < 256 ^ 3"
    unfolding c_def s_def using pos by (rule mantissa_range)
  have G: "GetCompact x = (if c div 2 ^ 23 mod 2 = 1
         then of_nat (c div 256 + (s + 1) * 2 ^ 24)
         else of_nat (c + s * 2 ^ 24))"
    by (simp only: GetCompact_def Let_def bits_def c_def s_def n_def)
  show ?thesis
  proof (cases "c < 2 ^ 23")
    case True
    then have "c div 2 ^ 23 = 0" by simp
    then have g: "GetCompact x = of_nat (c + s * 2 ^ 24)" by (simp only: G) simp
    have "2 ^ 15 \<le> c" using range by simp
    moreover have "if s \<le> 3 then c = unat x * 256 ^ (3 - s) else c = unat x div 256 ^ (s - 3)"
      by (simp add: c_def n_def)
    ultimately show ?thesis using g True s32 by (intro exI [of _ c] exI [of _ s]) simp
  next
    case False
    then have "c div 2 ^ 23 = 1" using range by simp
    then have g: "GetCompact x = of_nat (c div 256 + (s + 1) * 2 ^ 24)" by (simp only: G) simp
    have m1: "2 ^ 15 \<le> c div 256" using False by simp
    have m2: "c div 256 < 2 ^ 23" using range by (simp add: less_mult_imp_div_less)
    have sh: "if s + 1 \<le> 3 then c div 256 = unat x * 256 ^ (3 - (s + 1))
              else c div 256 = unat x div 256 ^ (s + 1 - 3)"
    proof (cases "s \<le> 2")
      case True
      then have "(256::nat) ^ (2 - s) * 256 ^ 1 = 256 ^ (3 - s)"
        by (intro pow256_split) simp
      then have "(256::nat) ^ (3 - s) = 256 ^ (2 - s) * 256" by simp
      then have "c div 256 = n * 256 ^ (2 - s)" using True by (simp add: c_def)
      then show ?thesis using True by (simp add: n_def)
    next
      case s2: False
      show ?thesis
      proof (cases "s = 3")
        case True
        then show ?thesis by (simp add: c_def n_def)
      next
        case False
        with s2 have s3: "3 < s" by simp
        then have "(256::nat) ^ (s - 3) * 256 ^ 1 = 256 ^ (s + 1 - 3)"
          by (intro pow256_split) simp
        then have "(256::nat) ^ (s + 1 - 3) = 256 ^ (s - 3) * 256" by simp
        then have "c div 256 = n div 256 ^ (s + 1 - 3)"
          using s3 by (simp add: c_def div_mult2_eq)
        then show ?thesis using s3 by (simp add: n_def)
      qed
    qed
    show ?thesis using g m1 m2 s32 sh
      by (intro exI [of _ "c div 256"] exI [of _ "s + 1"]) simp
  qed
qed

lemma SetCompact_of_parts:
  assumes m: "m < 2 ^ 23" and e: "e < 256"
  shows "unat (SetCompact (of_nat (m + e * 2 ^ 24))) =
           (if e \<le> 3 then m div 256 ^ (3 - e) else (m * 256 ^ (e - 3)) mod 2 ^ 256)"
proof -
  have "m + e * 2 ^ 24 < 2 ^ 32" using m e by simp
  then have u: "unat (of_nat (m + e * 2 ^ 24) :: 32 word) = m + e * 2 ^ 24"
    by (simp add: unat_of_nat del: of_nat_add of_nat_mult of_nat_power)
  have d: "(m + e * 2 ^ 24) div 2 ^ 24 = e" using m by simp
  have "e * 2 ^ 24 = (2 * e) * (2 ^ 23 :: nat)" by simp
  then have "(m + e * 2 ^ 24) mod 2 ^ 23 = (m + (2 * e) * 2 ^ 23) mod 2 ^ 23" by (simp only:)
  also have "\<dots> = m mod 2 ^ 23" by (rule mod_mult_self1)
  also have "\<dots> = m" using m by simp
  finally have r: "(m + e * 2 ^ 24) mod 2 ^ 23 = m" .
  show ?thesis by (simp only: unat_SetCompact u d r)
qed

lemma roundtrip_nat:
  "\<exists>j. unat (SetCompact (GetCompact x)) = (unat x div 256 ^ j) * 256 ^ j \<and> j \<le> 30
       \<and> (0 < j \<longrightarrow> 2 ^ 15 * 256 ^ j \<le> unat (SetCompact (GetCompact x)))"
proof (cases "x = 0")
  case True
  have "GetCompact 0 = 0" by (simp add: GetCompact_def bits_def bits_nat.simps)
  moreover have "SetCompact 0 = 0" by (simp add: SetCompact_def SetCompact_flags_def)
  ultimately show ?thesis using True by (intro exI [of _ 0]) simp
next
  case False
  from GetCompact_nat [OF False] obtain m e where
    g: "GetCompact x = of_nat (m + e * 2 ^ 24)" and m15: "2 ^ 15 \<le> m" and m23: "m < 2 ^ 23"
    and e33: "e \<le> 33"
    and sh: "if e \<le> 3 then m = unat x * 256 ^ (3 - e) else m = unat x div 256 ^ (e - 3)"
    by blast
  from e33 have e256: "e < 256" by simp
  have rt: "unat (SetCompact (GetCompact x)) =
           (if e \<le> 3 then m div 256 ^ (3 - e) else (m * 256 ^ (e - 3)) mod 2 ^ 256)"
    unfolding g using m23 e256 by (rule SetCompact_of_parts)
  show ?thesis
  proof (cases "e \<le> 3")
    case True
    with sh have "m = unat x * 256 ^ (3 - e)" by simp
    then have "m div 256 ^ (3 - e) = unat x" by simp
    with rt True show ?thesis by (intro exI [of _ 0]) simp
  next
    case e3: False
    with sh have mm: "m = unat x div 256 ^ (e - 3)" by simp
    have "m * 256 ^ (e - 3) \<le> unat x" unfolding mm by simp
    also have "\<dots> < 2 ^ 256" using unsigned_less [of x] by simp
    finally have "(m * 256 ^ (e - 3)) mod 2 ^ 256 = m * 256 ^ (e - 3)" by simp
    with rt e3 have v: "unat (SetCompact (GetCompact x)) = m * 256 ^ (e - 3)" by simp
    have "2 ^ 15 * 256 ^ (e - 3) \<le> m * 256 ^ (e - 3)" using m15 by (rule mult_le_mono1)
    with v mm e33 e3 show ?thesis by (intro exI [of _ "e - 3"]) simp
  qed
qed

lemma roundtrip_le: "SetCompact (GetCompact x) \<le> x"
proof -
  from roundtrip_nat [of x] obtain j where
    "unat (SetCompact (GetCompact x)) = (unat x div 256 ^ j) * 256 ^ j" by blast
  then have "unat (SetCompact (GetCompact x)) \<le> unat x" by simp
  then show ?thesis by (simp add: word_le_nat_alt)
qed

lemma roundtrip_ge:
  assumes le: "SetCompact nb \<le> y"
  shows "SetCompact nb \<le> SetCompact (GetCompact y)"
proof -
  define v where "v = unat (SetCompact nb)"
  define w where "w = unat nb mod 2 ^ 23"
  define ns where "ns = unat nb div 2 ^ 24"
  have w23: "w < 2 ^ 23" by (simp add: w_def)
  have vy: "v \<le> unat y" using le by (simp add: v_def word_le_nat_alt)
  have vdef: "v = (if ns \<le> 3 then w div 256 ^ (3 - ns) else (w * 256 ^ (ns - 3)) mod 2 ^ 256)"
    by (simp only: v_def w_def ns_def unat_SetCompact)
  from roundtrip_nat [of y] obtain j where
    rt: "unat (SetCompact (GetCompact y)) = (unat y div 256 ^ j) * 256 ^ j" and j30: "j \<le> 30"
    and lo: "0 < j \<longrightarrow> 2 ^ 15 * 256 ^ j \<le> unat (SetCompact (GetCompact y))"
    by blast
  have "v \<le> unat (SetCompact (GetCompact y))"
  proof (cases "j = 0")
    case True
    with rt vy show ?thesis by simp
  next
    case False
    then have jpos: "0 < j" by simp
    show ?thesis
    proof (cases "v < 2 ^ 15 * 256 ^ j")
      case True
      with lo jpos show ?thesis by simp
    next
      case big: False
      have j1: "(256::nat) ^ 1 \<le> 256 ^ j" using jpos by (intro power_increasing) simp_all
      have dv: "256 ^ j dvd v"
      proof (cases "ns \<le> 3")
        case True
        with vdef have "v \<le> w" by simp
        with w23 have "v < 2 ^ 15 * 256 ^ 1" by simp
        also have "\<dots> \<le> 2 ^ 15 * 256 ^ j" using j1 by (rule mult_le_mono2)
        finally show ?thesis using big by simp
      next
        case ns3: False
        with vdef have vm: "v = (w * 256 ^ (ns - 3)) mod 2 ^ 256" by simp
        then have "v \<le> w * 256 ^ (ns - 3)" by simp
        also have "\<dots> < 2 ^ 23 * 256 ^ (ns - 3)" using w23 by simp
        also have "\<dots> = 2 ^ 15 * 256 ^ (Suc (ns - 3))" by simp
        finally have "2 ^ 15 * 256 ^ j < 2 ^ 15 * (256::nat) ^ (Suc (ns - 3))"
          using big by simp
        then have "(256::nat) ^ j < 256 ^ (Suc (ns - 3))" by simp
        then have "j < Suc (ns - 3)" by (simp only: power_strict_increasing_iff)
        then have "j \<le> ns - 3" by simp
        then have "(256::nat) ^ j dvd 256 ^ (ns - 3)" by (rule le_imp_power_dvd)
        then have d1: "(256::nat) ^ j dvd w * 256 ^ (ns - 3)" by simp
        have "(256::nat) ^ j dvd 256 ^ 32" using j30 by (intro le_imp_power_dvd) simp
        then have d2: "(256::nat) ^ j dvd 2 ^ 256" by simp
        from d1 d2 show ?thesis unfolding vm by (rule dvd_mod)
      qed
      then obtain q where q: "v = 256 ^ j * q" by (rule dvdE)
      with vy have "q * 256 ^ j \<le> unat y" by (simp add: mult.commute)
      then have "q \<le> unat y div 256 ^ j"
        by (simp add: less_eq_div_iff_mult_less_eq)
      then have "q * 256 ^ j \<le> (unat y div 256 ^ j) * 256 ^ j" by (rule mult_le_mono1)
      with q rt show ?thesis by (simp add: mult.commute)
    qed
  qed
  then show ?thesis by (simp add: v_def word_le_nat_alt)
qed

lemmas eval_codec = SetCompact_def SetCompact_flags_def GetCompact_def bits_def bits_nat.simps
  scalar32_def scalar64_def UintToArith256_def cdiv_def cmod_def arith_div_def Let_def

subsection \<open>Scalars of the 256-bit layer\<close>

lemma scalar64_eq_0_iff: "is_int64 x \<Longrightarrow> (scalar64 x = 0) = (x = 0)"
proof -
  assume r: "is_int64 x"
  have "uint (scalar64 x) = (x mod 2 ^ 64) mod 2 ^ 256"
    by (simp add: scalar64_def uint_word_of_int)
  also have "\<dots> = x mod 2 ^ 64"
    by (rule mod_pos_pos_trivial) (simp_all add: order_less_le_trans [OF pos_mod_bound])
  finally have u: "uint (scalar64 x) = x mod 2 ^ 64" .
  have "(scalar64 x = 0) = (uint (scalar64 x) = 0)" by (simp add: uint_0_iff)
  also have "\<dots> = (x mod 2 ^ 64 = 0)" by (simp only: u)
  also have "\<dots> = (x = 0)"
  proof
    assume "x mod 2 ^ 64 = 0"
    then have "(2 ^ 64 :: int) dvd x" by (simp add: dvd_eq_mod_eq_0)
    then obtain q where "x = 2 ^ 64 * q" by (rule dvdE)
    with r show "x = 0" by (simp add: is_int64_def)
  next
    assume "x = 0" then show "x mod 2 ^ 64 = 0" by simp
  qed
  finally show ?thesis .
qed

lemma unat_scalar32: "0 \<le> x \<Longrightarrow> x < 2 ^ 32 \<Longrightarrow> unat (scalar32 x) = nat x"
proof -
  assume a: "0 \<le> x" "x < 2 ^ 32"
  then have "uint (scalar32 x) = x"
    by (simp add: scalar32_def uint_word_of_int)
  then show ?thesis by (simp flip: nat_uint_eq)
qed

lemma unat_scalar64: "0 \<le> x \<Longrightarrow> x < 2 ^ 64 \<Longrightarrow> unat (scalar64 x) = nat x"
proof -
  assume a: "0 \<le> x" "x < 2 ^ 64"
  then have "uint (scalar64 x) = x"
    by (simp add: scalar64_def uint_word_of_int)
  then show ?thesis by (simp flip: nat_uint_eq)
qed

lemma scaled_nat:
  assumes s: "0 \<le> s" "s < 2 ^ 32" and T: "0 < T" "T < 2 ^ 63"
    and no: "unat v * nat s < 2 ^ 256"
  shows "unat ((v * scalar32 s) div scalar64 T) = unat v * nat s div nat T"
proof -
  have us: "unat (scalar32 s) = nat s" using s by (rule unat_scalar32)
  have uT: "unat (scalar64 T) = nat T" using T by (intro unat_scalar64) simp_all
  have "unat v * unat (scalar32 s) < 2 ^ LENGTH(256)" using no by (simp add: us)
  then have "unat (v * scalar32 s) = unat v * unat (scalar32 s)"
    by (simp only: unat_mult_lem)
  then show ?thesis by (simp add: unat_div us uT)
qed

subsection \<open>Chains\<close>

lemma wf_chain_height_nonneg: "wf_chain c \<Longrightarrow> 0 \<le> nHeight c"
  by (induction c rule: wf_chain.induct) (auto split: option.splits)

lemma wf_chain_pprev:
  "wf_chain c \<Longrightarrow> pprev c = Some p \<Longrightarrow> wf_chain p \<and> nHeight c = nHeight p + 1"
  by (cases c) auto

lemma GetAncestor_self: "wf_chain c \<Longrightarrow> GetAncestor c (nHeight c) = Some c"
  using wf_chain_height_nonneg [of c] by (cases c) auto

lemma GetAncestor_pprev:
  "pprev c = Some p \<Longrightarrow> 0 \<le> h \<Longrightarrow> h < nHeight c \<Longrightarrow> GetAncestor c h = GetAncestor p h"
  by (cases c) auto

lemma GetAncestor_total:
  "wf_chain c \<Longrightarrow> 0 \<le> h \<Longrightarrow> h \<le> nHeight c \<Longrightarrow>
     \<exists>a. GetAncestor c h = Some a \<and> nHeight a = h \<and> wf_chain a"
proof (induction c rule: wf_chain.induct)
  case (1 ht t b pp)
  show ?case
  proof (cases "h = ht")
    case True
    with 1 show ?thesis by auto
  next
    case False
    with 1 have lt: "h < ht" by simp
    show ?thesis
    proof (cases pp)
      case None
      with 1 lt show ?thesis by simp
    next
      case (Some p)
      with 1 have wfp: "wf_chain p" and hp: "ht = nHeight p + 1" by auto
      from lt hp have "h \<le> nHeight p" by simp
      with 1 Some wfp have "\<exists>a. GetAncestor p h = Some a \<and> nHeight a = h \<and> wf_chain a"
        by blast
      with Some lt 1 show ?thesis by auto
    qed
  qed
qed

subsection \<open>The proof-of-work check\<close>

text \<open>
  C1. Without the fuzzing switch, \<^verbatim>\<open>CheckProofOfWork\<close> is false whenever the bits decode
  as negative, zero, overflowed or above the power-limit, and otherwise is true exactly
  when the hash is at most the target in the unsigned 256-bit order. For bits that derive
  the target \<open>T\<close>, the hash \<open>T\<close> passes; the hash one above the decoded target never
  passes.
\<close>

theorem C1_CheckProofOfWork:
  "CheckProofOfWork False hash nb params =
     (case SetCompact_flags nb of
        (T, fNegative, fOverflow) \<Rightarrow>
          \<not> fNegative \<and> T \<noteq> 0 \<and> \<not> fOverflow \<and> T \<le> UintToArith256 (powLimit params)
          \<and> UintToArith256 hash \<le> T)
   \<and> (DeriveTarget nb (powLimit params) = Some T \<longrightarrow>
        T = SetCompact nb \<and> CheckProofOfWork False T nb params
        \<and> \<not> CheckProofOfWork False (T + 1) nb params)
   \<and> \<not> CheckProofOfWork False (SetCompact nb + 1) nb params"
proof -
  have inc: "\<not> SetCompact nb + 1 \<le> SetCompact nb"
    using SetCompact_not_max [of nb] by (simp add: inc_less_eq_self_iff_eq)
  have a: "CheckProofOfWork False hash nb params =
     (case SetCompact_flags nb of
        (T, fNegative, fOverflow) \<Rightarrow>
          \<not> fNegative \<and> T \<noteq> 0 \<and> \<not> fOverflow \<and> T \<le> UintToArith256 (powLimit params)
          \<and> UintToArith256 hash \<le> T)"
    by (auto simp: CheckProofOfWork_def CheckProofOfWorkImpl_def DeriveTarget_def
        UintToArith256_def split: prod.splits)
  have c: "\<not> CheckProofOfWork False (SetCompact nb + 1) nb params"
    using inc
    by (auto simp: CheckProofOfWork_def CheckProofOfWorkImpl_def DeriveTarget_def
        UintToArith256_def SetCompact_def split: prod.splits)
  have b: "T = SetCompact nb \<and> CheckProofOfWork False T nb params
        \<and> \<not> CheckProofOfWork False (T + 1) nb params"
    if d: "DeriveTarget nb (powLimit params) = Some T"
  proof -
    from d have t: "T = SetCompact nb"
      by (auto simp: DeriveTarget_def SetCompact_def split: prod.splits if_splits)
    from d have "CheckProofOfWork False T nb params"
      by (simp add: CheckProofOfWork_def CheckProofOfWorkImpl_def UintToArith256_def)
    with t c show ?thesis by simp
  qed
  from a b c show ?thesis by blast
qed

theorem C1_CheckProofOfWork_witness:
  "DeriveTarget 0x1d00ffff (powLimit example_params)
     = Some 0x00000000ffff0000000000000000000000000000000000000000000000000000
   \<and> CheckProofOfWork False 0x00000000ffff0000000000000000000000000000000000000000000000000000
       0x1d00ffff example_params
   \<and> \<not> CheckProofOfWork False 0x00000000ffff0000000000000000000000000000000000000000000000000001
       0x1d00ffff example_params"
proof -
  have d: "DeriveTarget 0x1d00ffff (powLimit example_params)
     = Some 0x00000000ffff0000000000000000000000000000000000000000000000000000"
    by (simp add: DeriveTarget_def SetCompact_flags_def UintToArith256_def example_params_def)
  from C1_CheckProofOfWork [of "0" "0x1d00ffff" example_params
      "0x00000000ffff0000000000000000000000000000000000000000000000000000"] d
  show ?thesis by simp
qed

text \<open>
  C10. With the fuzzing switch on, \<^verbatim>\<open>CheckProofOfWork\<close> is true exactly when the top bit
  of byte 31 of the hash (bit 255 of the value) is clear; two calls whose hashes agree on
  that bit agree, whatever the bits, the parameters and the rest of the hash.
\<close>

theorem C10_fuzzing_bypass:
  "CheckProofOfWork True hash nb params = (\<not> bit (data hash 31) 7)
   \<and> bit (data hash 31) 7 = bit hash 255
   \<and> (bit (data hash 31) 7 = bit (data hash' 31) 7 \<longrightarrow>
        CheckProofOfWork True hash nb params = CheckProofOfWork True hash' nb' params')"
proof -
  have m: "(data h 31 AND 2 ^ 7 = 0) = (\<not> bit (data h 31) 7)" for h
    by (rule and_exp_eq_0_iff_not_bit)
  have a: "CheckProofOfWork True h n p = (\<not> bit (data h 31) 7)" for h n p
    using m [of h] by (simp add: CheckProofOfWork_def)
  have b: "bit (data hash 31) 7 = bit hash 255"
    by (simp add: data_def bit_ucast_iff bit_drop_bit_eq)
  from a b show ?thesis by simp
qed

theorem C10_fuzzing_bypass_witness:
  "bit (data (0x7f00000000000000000000000000000000000000000000000000000000000001 :: uint256) 31) 7
     = bit (data (5 :: uint256) 31) 7
   \<and> CheckProofOfWork True 0x7f00000000000000000000000000000000000000000000000000000000000001
        0 example_params
     = CheckProofOfWork True 5 0x1d00ffff (example_params \<lparr> powLimit := 1 \<rparr>)"
proof -
  have h: "bit (data (0x7f00000000000000000000000000000000000000000000000000000000000001 :: uint256) 31) 7
     = bit (data (5 :: uint256) 31) 7"
    by (simp add: data_def)
  from C10_fuzzing_bypass [of "0x7f00000000000000000000000000000000000000000000000000000000000001"
      0 example_params 5 "0x1d00ffff" "example_params \<lparr> powLimit := 1 \<rparr>"] h
  show ?thesis by blast
qed

subsection \<open>The bootstrap guard\<close>

text \<open>
  C9. When the tip height \<open>h\<close> satisfies \<open>h + 1 < N\<close> for the averaging-window size \<open>N\<close>,
  \<^verbatim>\<open>GetNextWorkRequired\<close> returns the compact encoding of the power-limit, whatever the
  switch height, the flags, the candidate header and the rest of the chain.
\<close>

theorem C9_bootstrap_guard:
  "nHeight tip + 1 < nLWMAAveragingWindow params \<Longrightarrow>
     GetNextWorkRequired (Some tip) pBlock params
       = Some (GetCompact (UintToArith256 (powLimit params)))"
  by (simp add: GetNextWorkRequired_def Let_def)

theorem C9_bootstrap_guard_witness:
  "nHeight (CBlockIndex 3 1000 0x1c00ffff None) + 1
     < nLWMAAveragingWindow
         (example_params \<lparr> fPowNoRetargeting := True, fPowAllowMinDifficultyBlocks := True \<rparr>)
   \<and> GetNextWorkRequired (Some (CBlockIndex 3 1000 0x1c00ffff None)) (CBlockHeader 5000)
        (example_params \<lparr> fPowNoRetargeting := True, fPowAllowMinDifficultyBlocks := True \<rparr>)
      = Some 0x1d00ffff"
proof -
  have h: "nHeight (CBlockIndex 3 1000 0x1c00ffff None) + 1
     < nLWMAAveragingWindow
         (example_params \<lparr> fPowNoRetargeting := True, fPowAllowMinDifficultyBlocks := True \<rparr>)"
    by (simp add: example_params_def)
  have g: "GetCompact (UintToArith256 (powLimit
         (example_params \<lparr> fPowNoRetargeting := True, fPowAllowMinDifficultyBlocks := True \<rparr>)))
       = 0x1d00ffff"
    by (simp add: example_params_def UintToArith256_def GetCompact_def bits_def bits_nat.simps
        Let_def)
  from C9_bootstrap_guard [OF h, of "CBlockHeader 5000"] h g show ?thesis by simp
qed

subsection \<open>The transition validator\<close>

lemma interval_nonzero_timespan:
  assumes "DifficultyAdjustmentInterval params = Some interval" and "interval \<noteq> 0"
  shows "nPowTargetTimespan params \<noteq> 0"
  using assms by (auto simp: DifficultyAdjustmentInterval_def cdiv_def split: if_splits)

lemma PermittedDifficultyTransition_boundary:
  assumes flag: "\<not> fPowAllowMinDifficultyBlocks params"
    and rng: "is_int64 (nPowTargetTimespan params)"
    and iv: "DifficultyAdjustmentInterval params = Some interval" "interval \<noteq> 0"
    and bd: "interval dvd height"
  shows "PermittedDifficultyTransition params height old_nbits new_nbits =
           Some (computed_bound params old_nbits (cdiv (nPowTargetTimespan params) 4)
                   \<le> SetCompact new_nbits
                 \<and> SetCompact new_nbits
                   \<le> computed_bound params old_nbits (nPowTargetTimespan params * 4))"
proof -
  have T0: "scalar64 (nPowTargetTimespan params) \<noteq> 0"
    using interval_nonzero_timespan [OF iv] scalar64_eq_0_iff [OF rng] by simp
  have c: "cmod height interval = 0" using iv(2) bd by (simp add: cmod_eq_0_iff)
  have mn: "(if a > pl then pl else a) = min a pl" for a pl :: arith_uint256
    by (auto simp: min_def)
  show ?thesis
    unfolding PermittedDifficultyTransition_def computed_bound_def
    using flag iv c T0
    by (auto simp add: arith_div_def Let_def mn not_less)
qed

lemma PermittedDifficultyTransition_off_boundary:
  assumes flag: "\<not> fPowAllowMinDifficultyBlocks params"
    and iv: "DifficultyAdjustmentInterval params = Some interval" "interval \<noteq> 0"
    and bd: "\<not> interval dvd height"
  shows "PermittedDifficultyTransition params height old_nbits new_nbits =
           Some (old_nbits = new_nbits)"
proof -
  have c: "cmod height interval \<noteq> 0" using iv(2) bd by (simp add: cmod_eq_0_iff)
  show ?thesis
    unfolding PermittedDifficultyTransition_def using flag iv c by simp
qed

lemma computed_bound_upper:
  assumes T: "0 < nPowTargetTimespan params" "nPowTargetTimespan params * 4 < 2 ^ 32"
    and le: "SetCompact old_nbits \<le> UintToArith256 (powLimit params)"
    and no: "unat (SetCompact old_nbits) * nat (nPowTargetTimespan params * 4) < 2 ^ 256"
  shows "SetCompact old_nbits
           \<le> computed_bound params old_nbits (nPowTargetTimespan params * 4)"
proof -
  let ?T = "nPowTargetTimespan params"
  let ?v = "SetCompact old_nbits"
  have "unat ((?v * scalar32 (?T * 4)) div scalar64 ?T) = unat ?v * nat (?T * 4) div nat ?T"
    using T no by (intro scaled_nat) simp_all
  also have "unat ?v * nat (?T * 4) = (unat ?v * 4) * nat ?T"
    using T by (simp add: nat_mult_distrib)
  also have "(unat ?v * 4) * nat ?T div nat ?T = unat ?v * 4" using T by simp
  finally have "?v \<le> (?v * scalar32 (?T * 4)) div scalar64 ?T"
    by (simp add: word_le_nat_alt)
  with le have "?v \<le> min ((?v * scalar32 (?T * 4)) div scalar64 ?T)
       (UintToArith256 (powLimit params))" by simp
  then show ?thesis unfolding computed_bound_def by (rule roundtrip_ge)
qed

lemma computed_bound_lower:
  assumes T: "0 < nPowTargetTimespan params" "nPowTargetTimespan params * 4 < 2 ^ 32"
    and no: "unat (SetCompact old_nbits) * nat (nPowTargetTimespan params * 4) < 2 ^ 256"
  shows "computed_bound params old_nbits (cdiv (nPowTargetTimespan params) 4)
           \<le> SetCompact old_nbits"
proof -
  let ?T = "nPowTargetTimespan params"
  let ?v = "SetCompact old_nbits"
  have q: "cdiv ?T 4 = ?T div 4" using T by (simp add: cdiv_nonneg)
  have q0: "0 \<le> ?T div 4" using T by simp
  have qT: "?T div 4 \<le> ?T" using T by simp
  have "unat ?v * nat (?T div 4) \<le> unat ?v * nat (?T * 4)"
    using T by (intro mult_le_mono2 nat_mono) simp
  from this no have no': "unat ?v * nat (?T div 4) < 2 ^ 256" by (rule le_less_trans)
  have "unat ((?v * scalar32 (?T div 4)) div scalar64 ?T)
          = unat ?v * nat (?T div 4) div nat ?T"
    using T q0 no' by (intro scaled_nat) simp_all
  also have "\<dots> \<le> unat ?v * nat ?T div nat ?T"
    using qT by (intro div_le_mono mult_le_mono2 nat_mono)
  also have "\<dots> = unat ?v" using T by simp
  finally have "(?v * scalar32 (?T div 4)) div scalar64 ?T \<le> ?v"
    by (simp add: word_le_nat_alt)
  then have "min ((?v * scalar32 (?T div 4)) div scalar64 ?T)
       (UintToArith256 (powLimit params)) \<le> ?v"
    by (simp add: min_le_iff_disj)
  with roundtrip_le show ?thesis
    unfolding computed_bound_def q by (rule order_trans)
qed

lemma computed_bound_le_limit:
  "computed_bound params old_nbits ts \<le> UintToArith256 (powLimit params)"
proof -
  have "computed_bound params old_nbits ts
      \<le> min (SetCompact old_nbits * scalar32 ts div scalar64 (nPowTargetTimespan params))
            (UintToArith256 (powLimit params))"
    unfolding computed_bound_def by (rule roundtrip_le)
  then show ?thesis by simp
qed

lemma word_min_unat: "min a b = (of_nat (min (unat a) (unat b)) :: 'a::len word)"
  by (cases "a \<le> b") (auto simp: min_def word_le_nat_alt)

lemma computed_bound_exact:
  assumes ts: "0 \<le> ts" "ts < 2 ^ 32"
    and T: "0 < nPowTargetTimespan params" "nPowTargetTimespan params < 2 ^ 63"
    and no: "unat (SetCompact old_nbits) * nat ts < 2 ^ 256"
  shows "computed_bound params old_nbits ts = transition_bound params old_nbits ts"
proof -
  have "unat (SetCompact old_nbits * scalar32 ts div scalar64 (nPowTargetTimespan params))
          = unat (SetCompact old_nbits) * nat ts div nat (nPowTargetTimespan params)"
    using ts T no by (rule scaled_nat)
  then show ?thesis
    unfolding computed_bound_def transition_bound_def
    by (simp only: word_min_unat [of "SetCompact old_nbits * scalar32 ts
          div scalar64 (nPowTargetTimespan params)"])
qed

text \<open>
  C4. With the allow-min-difficulty flag clear, at a height that is a multiple of the
  adjustment interval, for validated parameters (a positive target timespan whose
  fourfold is below \<open>2 ^ 32\<close>, and no 256-bit overflow when it scales the old target),
  the transition is accepted exactly when the decoded new target lies between the two
  bounds. The maximum is four times the decoded old target, the minimum the old target
  times (timespan / 4) over the timespan (a quarter of it when 4 divides the timespan),
  both in exact arithmetic, each clamped to the power-limit and then round-tripped
  through the compact encoding.
\<close>

theorem C4_transition_at_boundary:
  assumes "\<not> fPowAllowMinDifficultyBlocks params"
    and "0 < nPowTargetTimespan params" and "nPowTargetTimespan params * 4 < 2 ^ 32"
    and "DifficultyAdjustmentInterval params = Some interval" and "interval \<noteq> 0"
    and "interval dvd height"
    and "unat (SetCompact old_nbits) * nat (nPowTargetTimespan params * 4) < 2 ^ 256"
  shows "PermittedDifficultyTransition params height old_nbits new_nbits =
           Some (transition_bound params old_nbits (nPowTargetTimespan params div 4)
                   \<le> SetCompact new_nbits
                 \<and> SetCompact new_nbits
                   \<le> transition_bound params old_nbits (nPowTargetTimespan params * 4))
       \<and> transition_bound params old_nbits (nPowTargetTimespan params * 4)
           = SetCompact (GetCompact (of_nat
               (min (unat (SetCompact old_nbits) * 4)
                    (unat (UintToArith256 (powLimit params))))))
       \<and> (4 dvd nPowTargetTimespan params \<longrightarrow>
            transition_bound params old_nbits (nPowTargetTimespan params div 4)
            = SetCompact (GetCompact (of_nat
                (min (unat (SetCompact old_nbits) div 4)
                     (unat (UintToArith256 (powLimit params)))))))"
proof -
  let ?T = "nPowTargetTimespan params"
  let ?v = "unat (SetCompact old_nbits)"
  have i64: "is_int64 ?T" using assms(2,3) by (simp add: is_int64_def)
  have T63: "?T < 2 ^ 63" using assms(2,3) by simp
  have q: "cdiv ?T 4 = ?T div 4" using assms(2) by (simp add: cdiv_nonneg)
  have q0: "0 \<le> ?T div 4" using assms(2) by simp
  have q32: "?T div 4 < 2 ^ 32" using assms(2,3) by simp
  have "?v * nat (?T div 4) \<le> ?v * nat (?T * 4)"
    using assms(2) by (intro mult_le_mono2 nat_mono) simp
  from this assms(7) have noq: "?v * nat (?T div 4) < 2 ^ 256" by (rule le_less_trans)
  have lo: "computed_bound params old_nbits (?T div 4)
              = transition_bound params old_nbits (?T div 4)"
    using q0 q32 assms(2) T63 noq by (rule computed_bound_exact)
  have hi: "computed_bound params old_nbits (?T * 4)
              = transition_bound params old_nbits (?T * 4)"
    using _ assms(3) assms(2) T63 assms(7) by (rule computed_bound_exact) (use assms(2) in simp)
  have a: "PermittedDifficultyTransition params height old_nbits new_nbits =
           Some (transition_bound params old_nbits (?T div 4) \<le> SetCompact new_nbits
                 \<and> SetCompact new_nbits \<le> transition_bound params old_nbits (?T * 4))"
    using PermittedDifficultyTransition_boundary [OF assms(1) i64 assms(4,5,6),
        of old_nbits new_nbits]
    by (simp only: q lo hi)
  have n4: "nat (?T * 4) = nat ?T * 4" using assms(2) by (simp add: nat_mult_distrib)
  have e: "?v * nat (?T * 4) = (?v * 4) * nat ?T" by (simp add: n4)
  have "(?v * 4) * nat ?T div nat ?T = ?v * 4" using assms(2) by simp
  then have m: "?v * nat (?T * 4) div nat ?T = ?v * 4" by (simp only: e)
  have b: "transition_bound params old_nbits (?T * 4)
           = SetCompact (GetCompact (of_nat
               (min (?v * 4) (unat (UintToArith256 (powLimit params))))))"
    unfolding transition_bound_def by (simp only: m)
  have c: "transition_bound params old_nbits (?T div 4)
            = SetCompact (GetCompact (of_nat
                (min (?v div 4) (unat (UintToArith256 (powLimit params))))))"
    if d: "4 dvd ?T"
  proof -
    from d obtain k where k: "?T = 4 * k" by (rule dvdE)
    with assms(2) have kpos: "0 < k" by simp
    have "?v * nat (?T div 4) div nat ?T = ?v * nat k div (4 * nat k)"
      using k kpos by (simp add: nat_mult_distrib)
    also have "\<dots> = ?v div 4"
      using kpos by (simp add: mult.commute [of 4] flip: div_mult2_eq)
    finally show ?thesis unfolding transition_bound_def by (simp only:)
  qed
  from a b c show ?thesis by (intro conjI impI)
qed

theorem C4_transition_at_boundary_witness:
  "\<not> fPowAllowMinDifficultyBlocks example_params
   \<and> 0 < nPowTargetTimespan example_params
   \<and> nPowTargetTimespan example_params * 4 < 2 ^ 32
   \<and> DifficultyAdjustmentInterval example_params = Some 10 \<and> (10::int) \<noteq> 0 \<and> (10::int) dvd 20
   \<and> unat (SetCompact 0x1c00ffff) * nat (nPowTargetTimespan example_params * 4) < 2 ^ 256
   \<and> 4 dvd nPowTargetTimespan example_params
   \<and> transition_bound example_params 0x1c00ffff (nPowTargetTimespan example_params div 4)
       = SetCompact 0x1b3fffc0
   \<and> transition_bound example_params 0x1c00ffff (nPowTargetTimespan example_params * 4)
       = SetCompact 0x1c03fffc
   \<and> PermittedDifficultyTransition example_params 20 0x1c00ffff 0x1c03fffc = Some True
   \<and> PermittedDifficultyTransition example_params 20 0x1c00ffff 0x1c03fffd = Some False
   \<and> PermittedDifficultyTransition example_params 20 0x1c00ffff 0x1b3fffc0 = Some True
   \<and> PermittedDifficultyTransition example_params 20 0x1c00ffff 0x1b3fffbf = Some False"
proof -
  have h1: "\<not> fPowAllowMinDifficultyBlocks example_params" by (simp add: example_params_def)
  have h2: "0 < nPowTargetTimespan example_params" by (simp add: example_params_def)
  have h3: "nPowTargetTimespan example_params * 4 < 2 ^ 32" by (simp add: example_params_def)
  have h4: "DifficultyAdjustmentInterval example_params = Some 10"
    by (simp add: example_params_def DifficultyAdjustmentInterval_def cdiv_def)
  have h5: "(10::int) \<noteq> 0" by simp
  have h6: "(10::int) dvd 20" by simp
  have h7: "unat (SetCompact 0x1c00ffff) * nat (nPowTargetTimespan example_params * 4) < 2 ^ 256"
    by (simp add: example_params_def eval_codec)
  have h8: "4 dvd nPowTargetTimespan example_params" by (simp add: example_params_def)
  have lo: "SetCompact (GetCompact (of_nat (min (unat (SetCompact 0x1c00ffff) div 4)
                (unat (UintToArith256 (powLimit example_params))))))
       = SetCompact 0x1b3fffc0"
    by (simp add: example_params_def eval_codec)
  have hi: "SetCompact (GetCompact (of_nat (min (unat (SetCompact 0x1c00ffff) * 4)
                (unat (UintToArith256 (powLimit example_params))))))
       = SetCompact 0x1c03fffc"
    by (simp add: example_params_def eval_codec)
  note W = C4_transition_at_boundary [OF h1 h2 h3 h4 h5 h6 h7]
  from W [of 0] h8 have tlo: "transition_bound example_params 0x1c00ffff
       (nPowTargetTimespan example_params div 4) = SetCompact 0x1b3fffc0"
    by (simp only: lo)
  from W [of 0] have thi: "transition_bound example_params 0x1c00ffff
       (nPowTargetTimespan example_params * 4) = SetCompact 0x1c03fffc"
    by (simp only: hi)
  have c1: "SetCompact 0x1b3fffc0 \<le> SetCompact 0x1c03fffc" by (simp add: eval_codec)
  have c2: "SetCompact 0x1b3fffc0 \<le> SetCompact 0x1c03fffd" by (simp add: eval_codec)
  have c3: "\<not> SetCompact 0x1c03fffd \<le> SetCompact 0x1c03fffc" by (simp add: eval_codec)
  have c4: "\<not> SetCompact 0x1b3fffc0 \<le> SetCompact 0x1b3fffbf" by (simp add: eval_codec)
  have c5: "SetCompact 0x1b3fffbf \<le> SetCompact 0x1c03fffc" by (simp add: eval_codec)
  from W [of "0x1c03fffc"] have r1:
    "PermittedDifficultyTransition example_params 20 0x1c00ffff 0x1c03fffc = Some True"
    by (simp only: tlo thi c1) simp
  from W [of "0x1c03fffd"] have r2:
    "PermittedDifficultyTransition example_params 20 0x1c00ffff 0x1c03fffd = Some False"
    by (simp only: tlo thi c2 c3) simp
  from W [of "0x1b3fffc0"] have r3:
    "PermittedDifficultyTransition example_params 20 0x1c00ffff 0x1b3fffc0 = Some True"
    by (simp only: tlo thi c1) simp
  from W [of "0x1b3fffbf"] have r4:
    "PermittedDifficultyTransition example_params 20 0x1c00ffff 0x1b3fffbf = Some False"
    by (simp only: tlo thi c4 c5) simp
  show ?thesis
    by (intro conjI)
      (rule h1, rule h2, rule h3, rule h4, rule h5, rule h6, rule h7, rule h8, rule tlo,
       rule thi, rule r1, rule r2, rule r3, rule r4)
qed

text \<open>
  C5. With the flag clear, a change of bits is rejected at every height that is not a
  multiple of the adjustment interval. Unchanged bits are accepted at every height:
  without condition at a height that is not a multiple of the interval, and at any
  height when they are the bits of a valid previous block, whose decoded target is at
  most the power-limit (for validated parameters: a positive target timespan whose
  fourfold is below \<open>2 ^ 32\<close> and does not overflow 256 bits when it scales the old
  target).
\<close>

theorem C5_transition_unchanged_or_off_boundary:
  assumes "DifficultyAdjustmentInterval params = Some interval" and "interval \<noteq> 0"
  shows "(\<not> fPowAllowMinDifficultyBlocks params \<and> \<not> interval dvd height \<and> old_nbits \<noteq> new_nbits
            \<longrightarrow> PermittedDifficultyTransition params height old_nbits new_nbits = Some False)
       \<and> (\<not> interval dvd height
            \<longrightarrow> PermittedDifficultyTransition params height old_nbits old_nbits = Some True)
       \<and> (0 < nPowTargetTimespan params \<and> nPowTargetTimespan params * 4 < 2 ^ 32
           \<and> unat (SetCompact old_nbits) * nat (nPowTargetTimespan params * 4) < 2 ^ 256
           \<and> SetCompact old_nbits \<le> UintToArith256 (powLimit params)
            \<longrightarrow> PermittedDifficultyTransition params height old_nbits old_nbits = Some True)"
proof -
  have flag: "PermittedDifficultyTransition params h a b = Some True"
    if "fPowAllowMinDifficultyBlocks params" for h a b
    using that by (simp add: PermittedDifficultyTransition_def)
  have off: "PermittedDifficultyTransition params height a b = Some (a = b)"
    if "\<not> fPowAllowMinDifficultyBlocks params" "\<not> interval dvd height" for a b
    using that(1) assms that(2) by (rule PermittedDifficultyTransition_off_boundary)
  have p1: "PermittedDifficultyTransition params height old_nbits new_nbits = Some False"
    if "\<not> fPowAllowMinDifficultyBlocks params" "\<not> interval dvd height" "old_nbits \<noteq> new_nbits"
    using off [OF that(1,2)] that(3) by simp
  have p2: "PermittedDifficultyTransition params height old_nbits old_nbits = Some True"
    if "\<not> interval dvd height"
    using off [OF _ that] flag by (cases "fPowAllowMinDifficultyBlocks params") simp_all
  have p3: "PermittedDifficultyTransition params height old_nbits old_nbits = Some True"
    if v: "0 < nPowTargetTimespan params"
      "nPowTargetTimespan params * 4 < 2 ^ 32"
      "unat (SetCompact old_nbits) * nat (nPowTargetTimespan params * 4) < 2 ^ 256"
      "SetCompact old_nbits \<le> UintToArith256 (powLimit params)"
  proof (cases "fPowAllowMinDifficultyBlocks params")
    case True
    then show ?thesis by (rule flag)
  next
    case False
    show ?thesis
    proof (cases "interval dvd height")
      case d: False
      then show ?thesis by (rule p2)
    next
      case d: True
      have i64: "is_int64 (nPowTargetTimespan params)" using v(1,2) by (simp add: is_int64_def)
      from computed_bound_upper [OF v(1,2,4,3)] computed_bound_lower [OF v(1,2,3)]
        PermittedDifficultyTransition_boundary [OF False i64 assms d, of old_nbits old_nbits]
      show ?thesis by simp
    qed
  qed
  from p1 p2 p3 show ?thesis by (intro conjI impI) (elim conjE, assumption+)+
qed

theorem C5_transition_unchanged_or_off_boundary_witness:
  "DifficultyAdjustmentInterval example_params = Some 10 \<and> (10::int) \<noteq> 0
   \<and> \<not> fPowAllowMinDifficultyBlocks example_params \<and> \<not> (10::int) dvd 21
   \<and> (0x1c00ffff :: uint32_t) \<noteq> 0x1c00fffe
   \<and> PermittedDifficultyTransition example_params 21 0x1c00ffff 0x1c00fffe = Some False
   \<and> PermittedDifficultyTransition example_params 21 0x1c00ffff 0x1c00ffff = Some True
   \<and> 0 < nPowTargetTimespan example_params
   \<and> nPowTargetTimespan example_params * 4 < 2 ^ 32
   \<and> unat (SetCompact 0x1c00ffff) * nat (nPowTargetTimespan example_params * 4) < 2 ^ 256
   \<and> SetCompact 0x1c00ffff \<le> UintToArith256 (powLimit example_params)
   \<and> DeriveTarget 0x1c00ffff (powLimit example_params) = Some (SetCompact 0x1c00ffff)
   \<and> (10::int) dvd 20
   \<and> PermittedDifficultyTransition example_params 20 0x1c00ffff 0x1c00ffff = Some True"
proof -
  have h1: "DifficultyAdjustmentInterval example_params = Some 10"
    by (simp add: example_params_def DifficultyAdjustmentInterval_def cdiv_def)
  have h2: "(10::int) \<noteq> 0" by simp
  have f: "\<not> fPowAllowMinDifficultyBlocks example_params" by (simp add: example_params_def)
  have d21: "\<not> (10::int) dvd 21" by simp
  have ne: "(0x1c00ffff :: uint32_t) \<noteq> 0x1c00fffe" by simp
  have d20: "(10::int) dvd 20" by simp
  have t1: "0 < nPowTargetTimespan example_params" by (simp add: example_params_def)
  have t2: "nPowTargetTimespan example_params * 4 < 2 ^ 32" by (simp add: example_params_def)
  have no: "unat (SetCompact 0x1c00ffff) * nat (nPowTargetTimespan example_params * 4) < 2 ^ 256"
    by (simp add: example_params_def eval_codec)
  have le: "SetCompact 0x1c00ffff \<le> UintToArith256 (powLimit example_params)"
    by (simp add: example_params_def eval_codec)
  have dt: "DeriveTarget 0x1c00ffff (powLimit example_params) = Some (SetCompact 0x1c00ffff)"
    by (simp add: DeriveTarget_def example_params_def eval_codec)
  note W = C5_transition_unchanged_or_off_boundary [OF h1 h2]
  from W [of 21 "0x1c00ffff" "0x1c00fffe", THEN conjunct1] f d21 ne
  have r1: "PermittedDifficultyTransition example_params 21 0x1c00ffff 0x1c00fffe = Some False"
    by (elim impE) (intro conjI)
  from W [of 21 "0x1c00ffff" "0x1c00fffe", THEN conjunct2, THEN conjunct1] d21
  have r2: "PermittedDifficultyTransition example_params 21 0x1c00ffff 0x1c00ffff = Some True"
    by (elim impE)
  from W [of 20 "0x1c00ffff" "0x1c00fffe", THEN conjunct2, THEN conjunct2] t1 t2 no le
  have r3: "PermittedDifficultyTransition example_params 20 0x1c00ffff 0x1c00ffff = Some True"
    by (elim impE) (intro conjI)
  show ?thesis
    by (intro conjI)
      (rule h1, rule h2, rule f, rule d21, rule ne, rule r1, rule r2, rule t1, rule t2,
       rule no, rule le, rule dt, rule d20, rule r3)
qed

subsection \<open>The legacy retarget\<close>

lemma CalculateNextWorkRequired_eq:
  assumes nr: "\<not> fPowNoRetargeting params"
    and T: "nPowTargetTimespan params \<noteq> 0" "is_int64 (nPowTargetTimespan params)"
    and base: "retarget_base params pindexLast = Some base"
  shows "CalculateNextWorkRequired pindexLast nFirstBlockTime params =
           Some (GetCompact (min
             (base * scalar32 (clamp_timespan params (GetBlockTime pindexLast - nFirstBlockTime))
                div scalar64 (nPowTargetTimespan params))
             (UintToArith256 (powLimit params))))"
proof -
  have T0: "scalar64 (nPowTargetTimespan params) \<noteq> 0"
    using T scalar64_eq_0_iff by simp
  have mn: "(if a > pl then pl else a) = min a pl" for a pl :: arith_uint256
    by (auto simp: min_def)
  have cl: "(if (if t < lo then lo else t) > hi then hi else (if t < lo then lo else t))
              = min (max t lo) hi" for t lo hi :: int
    by (auto simp: min_def max_def)
  show ?thesis
    using nr base T0
    unfolding CalculateNextWorkRequired_def retarget_base_def clamp_timespan_def Let_def cl mn
    by (auto simp: arith_div_def split: option.splits if_splits)
qed

text \<open>
  C7. With the no-retargeting flag clear, the actual timespan is clamped to
  \<open>[timespan / 4, timespan * 4]\<close> before the new target is computed as
  base * clamped / timespan (truncating) and capped at the power-limit. With a one-day
  target timespan, an actual timespan of one second gives the result for 21600 seconds,
  a quarter of the base.
\<close>

theorem C7_legacy_clamp:
  assumes "\<not> fPowNoRetargeting params"
    and "retarget_base params pindexLast = Some base"
    and "0 < nPowTargetTimespan params" and "nPowTargetTimespan params * 4 < 2 ^ 32"
    and "unat base * nat (nPowTargetTimespan params * 4) < 2 ^ 256"
  shows "CalculateNextWorkRequired pindexLast nFirstBlockTime params =
           Some (GetCompact (min
             (base * scalar32 (clamp_timespan params (GetBlockTime pindexLast - nFirstBlockTime))
                div scalar64 (nPowTargetTimespan params))
             (UintToArith256 (powLimit params))))
       \<and> unat (base * scalar32 (clamp_timespan params (GetBlockTime pindexLast - nFirstBlockTime))
                div scalar64 (nPowTargetTimespan params))
           = unat base * nat (clamp_timespan params (GetBlockTime pindexLast - nFirstBlockTime))
               div nat (nPowTargetTimespan params)
       \<and> nPowTargetTimespan params div 4
             \<le> clamp_timespan params (GetBlockTime pindexLast - nFirstBlockTime)
       \<and> clamp_timespan params (GetBlockTime pindexLast - nFirstBlockTime)
             \<le> nPowTargetTimespan params * 4
       \<and> (nPowTargetTimespan params div 4 \<le> GetBlockTime pindexLast - nFirstBlockTime
            \<and> GetBlockTime pindexLast - nFirstBlockTime \<le> nPowTargetTimespan params * 4
            \<longrightarrow> clamp_timespan params (GetBlockTime pindexLast - nFirstBlockTime)
                  = GetBlockTime pindexLast - nFirstBlockTime)
       \<and> (nPowTargetTimespan params = 86400 \<and> GetBlockTime pindexLast - nFirstBlockTime = 1
            \<longrightarrow> clamp_timespan params (GetBlockTime pindexLast - nFirstBlockTime) = 21600
                \<and> CalculateNextWorkRequired pindexLast nFirstBlockTime params =
                    Some (GetCompact (min (base * 21600 div 86400)
                                          (UintToArith256 (powLimit params))))
                \<and> unat (base * 21600 div 86400) = unat base div 4)"
proof -
  let ?T = "nPowTargetTimespan params"
  let ?ts = "clamp_timespan params (GetBlockTime pindexLast - nFirstBlockTime)"
  have q: "cdiv ?T 4 = ?T div 4" using assms(3) by (simp add: cdiv_nonneg)
  have lo: "?T div 4 \<le> ?ts" using assms(3) by (simp add: clamp_timespan_def q)
  have hi: "?ts \<le> ?T * 4" by (simp add: clamp_timespan_def)
  have ts0: "0 \<le> ?ts" using lo assms(3) by simp
  have ts32: "?ts < 2 ^ 32" using hi assms(4) by simp
  have i64: "is_int64 ?T" using assms(3,4) by (simp add: is_int64_def)
  have eq: "CalculateNextWorkRequired pindexLast nFirstBlockTime params =
           Some (GetCompact (min (base * scalar32 ?ts div scalar64 ?T)
                                 (UintToArith256 (powLimit params))))"
    using assms(1) _ i64 assms(2) by (rule CalculateNextWorkRequired_eq) (use assms(3) in simp)
  have "unat base * nat ?ts \<le> unat base * nat (?T * 4)"
    using hi by (intro mult_le_mono2 nat_mono)
  from this assms(5) have no: "unat base * nat ?ts < 2 ^ 256" by (rule le_less_trans)
  have un: "unat (base * scalar32 ?ts div scalar64 ?T) = unat base * nat ?ts div nat ?T"
    using ts0 ts32 assms(3) _ no by (rule scaled_nat) (use assms(4) in simp)
  have id: "?ts = GetBlockTime pindexLast - nFirstBlockTime"
    if "?T div 4 \<le> GetBlockTime pindexLast - nFirstBlockTime"
       "GetBlockTime pindexLast - nFirstBlockTime \<le> ?T * 4"
    using that by (simp add: clamp_timespan_def q)
  have day: "?ts = 21600
                \<and> CalculateNextWorkRequired pindexLast nFirstBlockTime params =
                    Some (GetCompact (min (base * 21600 div 86400)
                                          (UintToArith256 (powLimit params))))
                \<and> unat (base * 21600 div 86400) = unat base div 4"
    if d: "?T = 86400" "GetBlockTime pindexLast - nFirstBlockTime = 1"
  proof -
    have t: "?ts = 21600" using d by (simp add: clamp_timespan_def cdiv_def)
    have t1: "clamp_timespan params 1 = 21600" using d by (simp add: clamp_timespan_def cdiv_def)
    have s1: "scalar32 21600 = 21600" by (simp add: scalar32_def)
    have s2: "scalar64 86400 = 86400" by (simp add: scalar64_def)
    from eq have e: "CalculateNextWorkRequired pindexLast nFirstBlockTime params =
                    Some (GetCompact (min (base * 21600 div 86400)
                                          (UintToArith256 (powLimit params))))"
      by (simp only: d t1 s1 s2)
    from un have "unat (base * 21600 div 86400) = unat base * 21600 div 86400"
      by (simp only: d t1 s1 s2) simp
    also have "\<dots> = unat base div 4" by simp
    finally show ?thesis using t e by simp
  qed
  from eq un lo hi id day show ?thesis by blast
qed

theorem C7_legacy_clamp_witness:
  "\<not> fPowNoRetargeting (example_params \<lparr> nPowTargetTimespan := 86400 \<rparr>)
   \<and> retarget_base (example_params \<lparr> nPowTargetTimespan := 86400 \<rparr>)
         (CBlockIndex 959 1000001 0x1c00ffff None) = Some (SetCompact 0x1c00ffff)
   \<and> 0 < nPowTargetTimespan (example_params \<lparr> nPowTargetTimespan := 86400 \<rparr>)
   \<and> nPowTargetTimespan (example_params \<lparr> nPowTargetTimespan := 86400 \<rparr>) * 4 < 2 ^ 32
   \<and> unat (SetCompact 0x1c00ffff)
         * nat (nPowTargetTimespan (example_params \<lparr> nPowTargetTimespan := 86400 \<rparr>) * 4)
       < 2 ^ 256
   \<and> GetBlockTime (CBlockIndex 959 1000001 0x1c00ffff None) - 1000000 = 1
   \<and> clamp_timespan (example_params \<lparr> nPowTargetTimespan := 86400 \<rparr>) 1 = 21600
   \<and> CalculateNextWorkRequired (CBlockIndex 959 1000001 0x1c00ffff None) 1000000
         (example_params \<lparr> nPowTargetTimespan := 86400 \<rparr>) = Some 0x1b3fffc0"
proof -
  let ?p = "example_params \<lparr> nPowTargetTimespan := 86400 \<rparr>"
  let ?c = "CBlockIndex 959 1000001 0x1c00ffff None"
  have h1: "\<not> fPowNoRetargeting ?p" by (simp add: example_params_def)
  have h2: "retarget_base ?p ?c = Some (SetCompact 0x1c00ffff)"
    by (simp add: retarget_base_def example_params_def)
  have h3: "0 < nPowTargetTimespan ?p" by simp
  have h4: "nPowTargetTimespan ?p * 4 < 2 ^ 32" by simp
  have h5: "unat (SetCompact 0x1c00ffff) * nat (nPowTargetTimespan ?p * 4) < 2 ^ 256"
    by (simp add: eval_codec)
  have t: "nPowTargetTimespan ?p = 86400" by simp
  have d: "GetBlockTime ?c - 1000000 = 1" by (simp add: GetBlockTime_def)
  have g: "GetCompact (min (SetCompact 0x1c00ffff * 21600 div 86400)
             (UintToArith256 (powLimit ?p))) = 0x1b3fffc0"
    by (simp add: example_params_def eval_codec)
  from C7_legacy_clamp [OF h1 h2 h3 h4 h5, of 1000000] t d
  have "clamp_timespan ?p (GetBlockTime ?c - 1000000) = 21600
      \<and> CalculateNextWorkRequired ?c 1000000 ?p =
           Some (GetCompact (min (SetCompact 0x1c00ffff * 21600 div 86400)
             (UintToArith256 (powLimit ?p))))"
    by blast
  with h1 h2 h3 h4 h5 d g show ?thesis by (simp only:) simp
qed

subsection \<open>The legacy retarget at an adjustment boundary\<close>

text \<open>
  In the legacy era, at a height where the next block starts a new period, the entry
  point is \<^verbatim>\<open>CalculateNextWorkRequired\<close> on the time of the block \<open>interval - 1\<close>
  heights below the tip.
\<close>

lemma legacy_retarget_at_boundary:
  assumes wf: "wf_chain tip" and h31: "nHeight tip < 2 ^ 31"
    and era: "nLWMAAveragingWindow params \<le> nHeight tip + 1"
      "nHeight tip < switchLWMAblock params"
    and iv: "DifficultyAdjustmentInterval params = Some interval" "0 < interval"
    and bd: "interval dvd nHeight tip + 1"
  shows "\<exists>first. GetAncestor tip (nHeight tip - (interval - 1)) = Some first
           \<and> GetNextWorkRequired (Some tip) pBlock params
               = CalculateNextWorkRequired tip (GetBlockTime first) params"
proof -
  have h0: "0 \<le> nHeight tip" using wf by (rule wf_chain_height_nonneg)
  from bd obtain q where q: "nHeight tip + 1 = interval * q" by (rule dvdE)
  with h0 have "0 < interval * q" by simp
  from this iv(2) have "0 < q" by (rule zero_less_mult_pos)
  then have "interval * 1 \<le> interval * q" using iv(2) by (intro mult_left_mono) simp_all
  with q have f0: "0 \<le> nHeight tip - (interval - 1)" by simp
  have fh: "nHeight tip - (interval - 1) \<le> nHeight tip" using iv(2) by simp
  from GetAncestor_total [OF wf f0 fh] obtain first
    where first: "GetAncestor tip (nHeight tip - (interval - 1)) = Some first" by blast
  have c: "cmod (nHeight tip + 1) interval = 0" using iv(2) bd by (simp add: cmod_eq_0_iff)
  have nf: "to_int32 (nHeight tip - (interval - 1)) = nHeight tip - (interval - 1)"
    using f0 fh h31 by (intro to_int32_id) simp_all
  have "GetNextWorkRequired (Some tip) pBlock params
          = CalculateNextWorkRequired tip (GetBlockTime first) params"
    using era iv c f0 first
    by (simp add: GetNextWorkRequired_def BitcoinGetNextWorkRequired_def Let_def nf)
  with first show ?thesis by blast
qed

text \<open>
  When the time from that block to the tip is the target timespan, bits in canonical form
  whose target is within the power-limit are returned unchanged.
\<close>

lemma legacy_exact_timespan_keeps_bits:
  assumes wf: "wf_chain tip" and h31: "nHeight tip < 2 ^ 31"
    and era: "nLWMAAveragingWindow params \<le> nHeight tip + 1"
      "nHeight tip < switchLWMAblock params"
    and flags: "\<not> fPowNoRetargeting params" "\<not> enforce_BIP94 params"
    and iv: "DifficultyAdjustmentInterval params = Some interval" "0 < interval"
    and bd: "interval dvd nHeight tip + 1"
    and Tpos: "0 < nPowTargetTimespan params"
    and T: "nPowTargetTimespan params * 4 < 2 ^ 32"
    and v: "SetCompact (nBits tip) \<le> UintToArith256 (powLimit params)"
      "GetCompact (SetCompact (nBits tip)) = nBits tip"
      "unat (SetCompact (nBits tip)) * nat (nPowTargetTimespan params * 4) < 2 ^ 256"
    and first: "GetAncestor tip (nHeight tip - (interval - 1)) = Some first"
    and exact: "GetBlockTime tip - GetBlockTime first = nPowTargetTimespan params"
  shows "GetNextWorkRequired (Some tip) pBlock params = Some (nBits tip)"
proof -
  let ?T = "nPowTargetTimespan params"
  let ?v = "SetCompact (nBits tip)"
  have q: "cdiv ?T 4 = ?T div 4" using Tpos by (simp add: cdiv_nonneg)
  have ts: "clamp_timespan params (GetBlockTime tip - GetBlockTime first) = ?T"
    using Tpos by (simp add: clamp_timespan_def exact q)
  have i64: "is_int64 ?T" using Tpos T by (simp add: is_int64_def)
  have base: "retarget_base params tip = Some ?v" using flags(2) by (simp add: retarget_base_def)
  from legacy_retarget_at_boundary [OF wf h31 era iv bd, of pBlock] first
  have "GetNextWorkRequired (Some tip) pBlock params
          = CalculateNextWorkRequired tip (GetBlockTime first) params" by simp
  also have "\<dots> = Some (GetCompact (min (?v * scalar32 ?T div scalar64 ?T)
                                  (UintToArith256 (powLimit params))))"
    using CalculateNextWorkRequired_eq [OF flags(1) _ i64 base, of "GetBlockTime first"] Tpos
    by (simp add: ts)
  finally have r: "GetNextWorkRequired (Some tip) pBlock params
      = Some (GetCompact (min (?v * scalar32 ?T div scalar64 ?T)
                              (UintToArith256 (powLimit params))))" .
  have "unat ?v * nat ?T \<le> unat ?v * nat (?T * 4)"
    using Tpos by (intro mult_le_mono2 nat_mono) simp
  from this v(3) have no: "unat ?v * nat ?T < 2 ^ 256" by (rule le_less_trans)
  have "unat (?v * scalar32 ?T div scalar64 ?T) = unat ?v * nat ?T div nat ?T"
    using _ _ Tpos _ no by (rule scaled_nat) (use Tpos T in simp_all)
  also have "\<dots> = unat ?v" using Tpos by simp
  finally have "?v * scalar32 ?T div scalar64 ?T = ?v" by (rule word_unat_eq_iff [THEN iffD2])
  with r v(1,2) show ?thesis by (simp add: min_def)
qed

text \<open>
  When the blocks are one target spacing apart, that time is \<open>interval - 1\<close> spacings,
  less than the target timespan: the returned bits decode to a target strictly below the
  previous one, so they are never the previous bits.
\<close>

lemma legacy_on_schedule_lowers_target:
  assumes wf: "wf_chain tip" and h31: "nHeight tip < 2 ^ 31"
    and era: "nLWMAAveragingWindow params \<le> nHeight tip + 1"
      "nHeight tip < switchLWMAblock params"
    and flags: "\<not> fPowNoRetargeting params" "\<not> enforce_BIP94 params"
    and sp: "0 < nPowTargetSpacing params"
    and iv: "DifficultyAdjustmentInterval params = Some interval" "0 < interval"
    and bd: "interval dvd nHeight tip + 1"
    and Tpos: "0 < nPowTargetTimespan params"
    and T: "nPowTargetTimespan params * 4 < 2 ^ 32"
    and v: "SetCompact (nBits tip) \<noteq> 0"
      "unat (SetCompact (nBits tip)) * nat (nPowTargetTimespan params * 4) < 2 ^ 256"
    and first: "GetAncestor tip (nHeight tip - (interval - 1)) = Some first"
    and sched: "GetBlockTime tip - GetBlockTime first = (interval - 1) * nPowTargetSpacing params"
  shows "\<exists>b. GetNextWorkRequired (Some tip) pBlock params = Some b
           \<and> SetCompact b < SetCompact (nBits tip) \<and> b \<noteq> nBits tip"
proof -
  let ?T = "nPowTargetTimespan params"
  let ?s = "nPowTargetSpacing params"
  let ?v = "SetCompact (nBits tip)"
  let ?ts = "clamp_timespan params (GetBlockTime tip - GetBlockTime first)"
  from iv(1) sp have i: "interval = cdiv ?T ?s"
    by (simp add: DifficultyAdjustmentInterval_def split: if_splits)
  have i': "interval = ?T div ?s" using i sp Tpos by (simp add: cdiv_nonneg)
  have "?s * (?T div ?s) + ?T mod ?s = ?T" by simp
  moreover have "0 \<le> ?T mod ?s" using sp by simp
  ultimately have "?s * (?T div ?s) \<le> ?T" by linarith
  then have "interval * ?s \<le> ?T" unfolding i' by (simp add: mult.commute)
  then have a: "(interval - 1) * ?s < ?T" using sp by (simp add: left_diff_distrib)
  have q: "cdiv ?T 4 = ?T div 4" using Tpos by (simp add: cdiv_nonneg)
  have "?T div 4 < ?T" using Tpos by simp
  with a have tsT: "?ts < ?T" by (simp add: clamp_timespan_def sched q)
  have ts0: "0 \<le> ?ts" using Tpos by (simp add: clamp_timespan_def q)
  have ts32: "?ts < 2 ^ 32" using tsT T Tpos by simp
  have i64: "is_int64 ?T" using Tpos T by (simp add: is_int64_def)
  have base: "retarget_base params tip = Some ?v" using flags(2) by (simp add: retarget_base_def)
  from legacy_retarget_at_boundary [OF wf h31 era iv bd, of pBlock] first
  have "GetNextWorkRequired (Some tip) pBlock params
          = CalculateNextWorkRequired tip (GetBlockTime first) params" by simp
  also have "\<dots> = Some (GetCompact (min (?v * scalar32 ?ts div scalar64 ?T)
                                  (UintToArith256 (powLimit params))))"
    using flags(1) _ i64 base by (rule CalculateNextWorkRequired_eq) (use Tpos in simp)
  finally have r: "GetNextWorkRequired (Some tip) pBlock params
      = Some (GetCompact (min (?v * scalar32 ?ts div scalar64 ?T)
                              (UintToArith256 (powLimit params))))" .
  have "unat ?v * nat ?ts \<le> unat ?v * nat (?T * 4)"
    using tsT Tpos by (intro mult_le_mono2 nat_mono) simp
  from this v(2) have no: "unat ?v * nat ?ts < 2 ^ 256" by (rule le_less_trans)
  have un: "unat (?v * scalar32 ?ts div scalar64 ?T) = unat ?v * nat ?ts div nat ?T"
    using ts0 ts32 Tpos _ no by (rule scaled_nat) (use T in simp)
  have vpos: "0 < unat ?v" using v(1) by (simp add: unat_gt_0)
  have "nat ?ts < nat ?T" using tsT Tpos by simp
  then have "unat ?v * nat ?ts < unat ?v * nat ?T" using vpos by simp
  then have "unat ?v * nat ?ts div nat ?T < unat ?v"
    by (simp add: less_mult_imp_div_less)
  with un have lt: "?v * scalar32 ?ts div scalar64 ?T < ?v" by (simp add: word_less_nat_alt)
  have "SetCompact (GetCompact (min (?v * scalar32 ?ts div scalar64 ?T)
                              (UintToArith256 (powLimit params))))
          \<le> min (?v * scalar32 ?ts div scalar64 ?T) (UintToArith256 (powLimit params))"
    by (rule roundtrip_le)
  also have "\<dots> \<le> ?v * scalar32 ?ts div scalar64 ?T" by simp
  also note lt
  finally have "SetCompact (GetCompact (min (?v * scalar32 ?ts div scalar64 ?T)
                              (UintToArith256 (powLimit params)))) < ?v" .
  with r show ?thesis by auto
qed

text \<open>
  C3. The claim: in the legacy era, at an adjustment boundary, a chain mined with spacing
  exactly the target spacing gets the previous block's bits again. The code measures the
  time between the first and the last block of the period, which is one spacing short of
  the target timespan, so the target shrinks: for ten blocks 90 seconds apart (interval
  10, timespan 900) the previous bits \<open>0x1c00ffff\<close> become \<open>0x1c00e665\<close>.
\<close>

theorem C3_on_schedule_changes_bits:
  "GetNextWorkRequired on_schedule_chain (CBlockHeader 1000900) example_params = Some 0x1c00e665
   \<and> map_option nBits on_schedule_chain = Some 0x1c00ffff
   \<and> map_option nHeight on_schedule_chain = Some 9
   \<and> DifficultyAdjustmentInterval example_params = Some 10
   \<and> nPowTargetSpacing example_params = 90
   \<and> nHeight (the on_schedule_chain) < switchLWMAblock example_params"
proof -
  have "GetNextWorkRequired on_schedule_chain (CBlockHeader 1000900) example_params
          = Some 0x1c00e665"
    unfolding GetNextWorkRequired_def BitcoinGetNextWorkRequired_def
      CalculateNextWorkRequired_def Let_def on_schedule_chain_def
    by (simp add: example_params_def DifficultyAdjustmentInterval_def GetBlockTime_def
        to_int32_def eval_codec)
  then show ?thesis
    by (simp add: on_schedule_chain_def example_params_def DifficultyAdjustmentInterval_def
        cdiv_def)
qed

subsection \<open>The backward walk of the legacy off-boundary rule\<close>

lemma skip_fuel_enough:
  "wf_chain c \<Longrightarrow> i \<noteq> 0 \<Longrightarrow> nat (nHeight c mod \<bar>i\<bar>) \<le> n \<Longrightarrow>
     skip_min_difficulty_fuel n i lim c = Some (skip_min_difficulty i lim c)"
proof (induction i lim c arbitrary: n rule: skip_min_difficulty.induct)
  case (1 i lim h t b pp)
  show ?case
  proof (cases pp)
    case None
    then show ?thesis by simp
  next
    case (Some p)
    show ?thesis
    proof (cases "cmod h i \<noteq> 0 \<and> b = lim")
      case False
      with Some show ?thesis by auto
    next
      case True
      from "1.prems" Some have wfp: "wf_chain p" and hp: "h = nHeight p + 1" by auto
      from True "1.prems"(2) have nz: "h mod \<bar>i\<bar> \<noteq> 0" by (simp add: cmod_ne_0_iff_mod)
      have ipos: "0 < \<bar>i\<bar>" using "1.prems"(2) by simp
      have pm: "(h - 1) mod \<bar>i\<bar> = h mod \<bar>i\<bar> - 1" using ipos nz by (rule mod_pred)
      have "0 \<le> h mod \<bar>i\<bar>" using ipos by simp
      with nz have "0 < h mod \<bar>i\<bar>" by simp
      with "1.prems"(3) obtain m where n: "n = Suc m" by (cases n) simp_all
      have "nat (nHeight p mod \<bar>i\<bar>) \<le> m"
        using "1.prems"(3) hp pm n by simp
      with "1.IH" [OF Some True wfp "1.prems"(2)]
      have "skip_min_difficulty_fuel m i lim p = Some (skip_min_difficulty i lim p)" by blast
      with Some True n show ?thesis by simp
    qed
  qed
qed

lemma skip_walk:
  "wf_chain c \<Longrightarrow> i \<noteq> 0 \<Longrightarrow>
     wf_chain (skip_min_difficulty i lim c)
     \<and> GetAncestor c (nHeight (skip_min_difficulty i lim c)) = Some (skip_min_difficulty i lim c)
     \<and> (pprev (skip_min_difficulty i lim c) = None
         \<or> cmod (nHeight (skip_min_difficulty i lim c)) i = 0
         \<or> nBits (skip_min_difficulty i lim c) \<noteq> lim)
     \<and> (\<forall>h'. nHeight (skip_min_difficulty i lim c) < h' \<and> h' \<le> nHeight c \<longrightarrow>
           (\<exists>a. GetAncestor c h' = Some a \<and> nBits a = lim \<and> cmod h' i \<noteq> 0))
     \<and> nHeight c - nHeight (skip_min_difficulty i lim c) \<le> nHeight c mod \<bar>i\<bar>"
proof (induction i lim c rule: skip_min_difficulty.induct)
  case (1 i lim h t b pp)
  let ?c = "CBlockIndex h t b pp"
  have ipos: "0 < \<bar>i\<bar>" using "1.prems"(2) by simp
  have self: "GetAncestor ?c (nHeight ?c) = Some ?c"
    using "1.prems"(1) by (rule GetAncestor_self)
  have stop: ?case if "skip_min_difficulty i lim ?c = ?c"
    and "pprev ?c = None \<or> cmod (nHeight ?c) i = 0 \<or> nBits ?c \<noteq> lim"
    using that self "1.prems"(1) ipos by (simp only: ) simp
  show ?case
  proof (cases pp)
    case None
    then show ?thesis by (intro stop) simp_all
  next
    case (Some p)
    show ?thesis
    proof (cases "cmod h i \<noteq> 0 \<and> b = lim")
      case False
      with Some show ?thesis by (intro stop) auto
    next
      case True
      let ?r = "skip_min_difficulty i lim p"
      from "1.prems" Some have wfp: "wf_chain p" and hp: "h = nHeight p + 1" by auto
      have r: "skip_min_difficulty i lim ?c = ?r" using Some True by simp
      from "1.IH" [OF Some True wfp "1.prems"(2)]
      have wfr: "wf_chain ?r"
        and anc: "GetAncestor p (nHeight ?r) = Some ?r"
        and cond: "pprev ?r = None \<or> cmod (nHeight ?r) i = 0 \<or> nBits ?r \<noteq> lim"
        and skipped: "\<forall>h'. nHeight ?r < h' \<and> h' \<le> nHeight p \<longrightarrow>
           (\<exists>a. GetAncestor p h' = Some a \<and> nBits a = lim \<and> cmod h' i \<noteq> 0)"
        and bound: "nHeight p - nHeight ?r \<le> nHeight p mod \<bar>i\<bar>"
        by blast+
      have r0: "0 \<le> nHeight ?r" using wfr by (rule wf_chain_height_nonneg)
      have rp: "nHeight ?r \<le> nHeight p"
      proof (rule ccontr)
        assume "\<not> nHeight ?r \<le> nHeight p"
        then have "GetAncestor p (nHeight ?r) = None" by (cases p) simp
        with anc show False by simp
      qed
      have up: "GetAncestor ?c h' = GetAncestor p h'" if "0 \<le> h'" "h' \<le> nHeight p" for h'
        using that hp Some by (intro GetAncestor_pprev) simp_all
      have a2: "GetAncestor ?c (nHeight ?r) = Some ?r"
        using up [OF r0 rp] anc by simp
      have a4: "\<exists>a. GetAncestor ?c h' = Some a \<and> nBits a = lim \<and> cmod h' i \<noteq> 0"
        if "nHeight ?r < h'" "h' \<le> nHeight ?c" for h'
      proof (cases "h' = h")
        case True
        with self \<open>cmod h i \<noteq> 0 \<and> b = lim\<close> show ?thesis by simp
      next
        case False
        with that hp have "h' \<le> nHeight p" by simp
        moreover from that r0 have "0 \<le> h'" by simp
        ultimately show ?thesis using up [of h'] skipped that(1) by simp
      qed
      from True "1.prems"(2) have nz: "h mod \<bar>i\<bar> \<noteq> 0" by (simp add: cmod_ne_0_iff_mod)
      have pm: "(h - 1) mod \<bar>i\<bar> = h mod \<bar>i\<bar> - 1" using ipos nz by (rule mod_pred)
      have a5: "nHeight ?c - nHeight ?r \<le> nHeight ?c mod \<bar>i\<bar>"
        using bound hp pm by simp
      from wfr a2 cond a4 a5 show ?thesis by (simp only: r) blast
    qed
  qed
qed

text \<open>
  C8. On a chain whose heights count up by one from 0, with a non-zero interval, the
  backward walk of the legacy off-boundary rule finishes within \<open>|interval| - 1\<close>
  steps. It stops at a block of the chain that is the first block, or whose height is a
  multiple of the interval, or whose bits differ from the power-limit bits; every block it
  stepped over has the power-limit bits and a height that is no multiple of the interval;
  and it moves back by less than one interval. This is the walk
  \<^verbatim>\<open>BitcoinGetNextWorkRequired\<close> makes with the allow-min-difficulty flag set.
\<close>

theorem C8_min_difficulty_walk:
  assumes "wf_chain tip" and "interval \<noteq> 0"
  shows "skip_min_difficulty_fuel (nat \<bar>interval\<bar> - 1) interval lim tip
           = Some (skip_min_difficulty interval lim tip)
       \<and> GetAncestor tip (nHeight (skip_min_difficulty interval lim tip))
           = Some (skip_min_difficulty interval lim tip)
       \<and> (pprev (skip_min_difficulty interval lim tip) = None
           \<or> cmod (nHeight (skip_min_difficulty interval lim tip)) interval = 0
           \<or> nBits (skip_min_difficulty interval lim tip) \<noteq> lim)
       \<and> (\<forall>h. nHeight (skip_min_difficulty interval lim tip) < h \<and> h \<le> nHeight tip \<longrightarrow>
             (\<exists>a. GetAncestor tip h = Some a \<and> nBits a = lim \<and> cmod h interval \<noteq> 0))
       \<and> nHeight tip - nHeight (skip_min_difficulty interval lim tip) < \<bar>interval\<bar>
       \<and> (fPowAllowMinDifficultyBlocks params
           \<and> DifficultyAdjustmentInterval params = Some interval
           \<and> cmod (nHeight tip + 1) interval \<noteq> 0
           \<and> HeaderGetBlockTime pblock \<le> GetBlockTime tip + nPowTargetSpacing params * 2
           \<longrightarrow> BitcoinGetNextWorkRequired (Some tip) pblock params
                 = Some (nBits (skip_min_difficulty interval
                                  (GetCompact (UintToArith256 (powLimit params))) tip)))"
proof -
  let ?r = "skip_min_difficulty interval lim tip"
  have ipos: "0 < \<bar>interval\<bar>" using assms(2) by simp
  then have m: "nHeight tip mod \<bar>interval\<bar> < \<bar>interval\<bar>" by simp
  then have "nat (nHeight tip mod \<bar>interval\<bar>) \<le> nat \<bar>interval\<bar> - 1" by linarith
  with assms have f1: "skip_min_difficulty_fuel (nat \<bar>interval\<bar> - 1) interval lim tip = Some ?r"
    by (rule skip_fuel_enough)
  note w = skip_walk [OF assms, of lim]
  from w have f2: "GetAncestor tip (nHeight ?r) = Some ?r" by (elim conjE)
  from w have f3: "pprev ?r = None \<or> cmod (nHeight ?r) interval = 0 \<or> nBits ?r \<noteq> lim"
    by (elim conjE)
  from w have f4: "\<forall>h. nHeight ?r < h \<and> h \<le> nHeight tip \<longrightarrow>
             (\<exists>a. GetAncestor tip h = Some a \<and> nBits a = lim \<and> cmod h interval \<noteq> 0)"
    by (elim conjE)
  from w have "nHeight tip - nHeight ?r \<le> nHeight tip mod \<bar>interval\<bar>" by (elim conjE)
  from this m have f5: "nHeight tip - nHeight ?r < \<bar>interval\<bar>" by (rule le_less_trans)
  have f6: "fPowAllowMinDifficultyBlocks params
           \<and> DifficultyAdjustmentInterval params = Some interval
           \<and> cmod (nHeight tip + 1) interval \<noteq> 0
           \<and> HeaderGetBlockTime pblock \<le> GetBlockTime tip + nPowTargetSpacing params * 2
           \<longrightarrow> BitcoinGetNextWorkRequired (Some tip) pblock params
                 = Some (nBits (skip_min_difficulty interval
                                  (GetCompact (UintToArith256 (powLimit params))) tip))"
    using assms(2) by (simp add: BitcoinGetNextWorkRequired_def Let_def)
  show ?thesis
    by (intro conjI) (rule f1, rule f2, rule f3, rule f4, rule f5, rule f6)
qed

theorem C8_min_difficulty_walk_witness:
  "wf_chain min_difficulty_tip \<and> (10::int) \<noteq> 0
   \<and> skip_min_difficulty_fuel 9 10 0x1d00ffff min_difficulty_tip
       = GetAncestor min_difficulty_tip 4
   \<and> nHeight min_difficulty_tip = 6
   \<and> map_option nBits (GetAncestor min_difficulty_tip 4) = Some 0x1c00ffff
   \<and> BitcoinGetNextWorkRequired (Some min_difficulty_tip) (CBlockHeader 1000990)
         (example_params \<lparr> fPowAllowMinDifficultyBlocks := True \<rparr>) = Some 0x1c00ffff"
proof -
  let ?p = "example_params \<lparr> fPowAllowMinDifficultyBlocks := True \<rparr>"
  have h1: "wf_chain min_difficulty_tip" by (simp add: min_difficulty_tip_def)
  have h2: "(10::int) \<noteq> 0" by simp
  have s: "Some (skip_min_difficulty 10 0x1d00ffff min_difficulty_tip)
             = GetAncestor min_difficulty_tip 4"
    by (simp add: min_difficulty_tip_def cmod_def cdiv_def)
  have g: "GetCompact (UintToArith256 (powLimit ?p)) = 0x1d00ffff"
    by (simp add: example_params_def eval_codec)
  have a: "fPowAllowMinDifficultyBlocks ?p" by simp
  have i: "DifficultyAdjustmentInterval ?p = Some 10"
    by (simp add: example_params_def DifficultyAdjustmentInterval_def cdiv_def)
  have c: "cmod (nHeight min_difficulty_tip + 1) 10 \<noteq> 0"
    by (simp add: min_difficulty_tip_def cmod_def cdiv_def)
  have t: "HeaderGetBlockTime (CBlockHeader 1000990)
             \<le> GetBlockTime min_difficulty_tip + nPowTargetSpacing ?p * 2"
    by (simp add: min_difficulty_tip_def HeaderGetBlockTime_def GetBlockTime_def
        example_params_def)
  have n: "nHeight min_difficulty_tip = 6" by (simp add: min_difficulty_tip_def)
  have b: "map_option nBits (GetAncestor min_difficulty_tip 4) = Some 0x1c00ffff"
    by (simp add: min_difficulty_tip_def)
  note w = C8_min_difficulty_walk [OF h1 h2, of "0x1d00ffff" ?p "CBlockHeader 1000990"]
  from w have "skip_min_difficulty_fuel (nat \<bar>10\<bar> - 1) 10 0x1d00ffff min_difficulty_tip
           = Some (skip_min_difficulty 10 0x1d00ffff min_difficulty_tip)"
    by (rule conjunct1)
  then have f: "skip_min_difficulty_fuel 9 10 0x1d00ffff min_difficulty_tip
           = GetAncestor min_difficulty_tip 4"
    by (simp add: s)
  from w have "fPowAllowMinDifficultyBlocks ?p
           \<and> DifficultyAdjustmentInterval ?p = Some 10
           \<and> cmod (nHeight min_difficulty_tip + 1) 10 \<noteq> 0
           \<and> HeaderGetBlockTime (CBlockHeader 1000990)
               \<le> GetBlockTime min_difficulty_tip + nPowTargetSpacing ?p * 2
           \<longrightarrow> BitcoinGetNextWorkRequired (Some min_difficulty_tip) (CBlockHeader 1000990) ?p
                 = Some (nBits (skip_min_difficulty 10
                                  (GetCompact (UintToArith256 (powLimit ?p)))
                                  min_difficulty_tip))"
    by (elim conjE)
  with a i c t have "BitcoinGetNextWorkRequired (Some min_difficulty_tip)
        (CBlockHeader 1000990) ?p
       = Some (nBits (skip_min_difficulty 10 (GetCompact (UintToArith256 (powLimit ?p)))
                        min_difficulty_tip))"
    by (elim impE) (intro conjI)
  also have "\<dots> = map_option nBits (Some (skip_min_difficulty 10 0x1d00ffff min_difficulty_tip))"
    by (simp only: g option.map)
  also have "\<dots> = Some 0x1c00ffff" by (simp only: s b)
  finally have r: "BitcoinGetNextWorkRequired (Some min_difficulty_tip)
        (CBlockHeader 1000990) ?p = Some 0x1c00ffff" .
  show ?thesis
    by (intro conjI) (rule h1, rule h2, rule f, rule n, rule b, rule r)
qed

subsection \<open>The weighted moving-average retarget\<close>


lemma lwma_loop_total:
  "wf_chain tip \<Longrightarrow> 0 \<le> i \<Longrightarrow> height \<le> nHeight tip \<Longrightarrow>
     \<exists>s. lwma_loop tip T height i weight previousTimestamp sumTarget = Some s"
proof (induction tip T height i weight previousTimestamp sumTarget rule: lwma_loop.induct)
  case (1 tip T height i weight previousTimestamp sumTarget)
  show ?case
  proof (cases "i \<le> height")
    case False
    then show ?thesis by (subst lwma_loop.simps) simp
  next
    case True
    with "1.prems" have "i \<le> nHeight tip" by simp
    with "1.prems" obtain block where b: "GetAncestor tip i = Some block"
      using GetAncestor_total [of tip i] by blast
    have "0 \<le> i + 1" using "1.prems" by simp
    from "1.IH" [OF True b refl refl refl refl refl refl "1.prems"(1) this "1.prems"(3)]
    show ?thesis
      using True b by (subst lwma_loop.simps) (simp add: Let_def)
  qed
qed




lemma window_step:
  "i \<le> height \<Longrightarrow>
     window tip i height =
       (case GetAncestor tip i of
          None \<Rightarrow> None
        | Some b \<Rightarrow> map_option (Cons b) (window tip (i + 1) height))"
  by (simp add: window_def upto_rec1 [of i height] split: option.splits)

lemma window_done: "\<not> i \<le> height \<Longrightarrow> window tip i height = Some []"
  by (simp add: window_def)

lemma lwma_loop_window:
  "lwma_loop tip T height i weight previousTimestamp sumTarget =
     map_option (\<lambda>bs. weighted_sum T weight sumTarget bs (solve_times previousTimestamp bs))
       (window tip i height)"
proof (induction tip T height i weight previousTimestamp sumTarget rule: lwma_loop.induct)
  case (1 tip T height i weight previousTimestamp sumTarget)
  show ?case
  proof (cases "i \<le> height")
    case False
    then show ?thesis by (subst lwma_loop.simps) (simp add: window_done)
  next
    case True
    show ?thesis
    proof (cases "GetAncestor tip i")
      case None
      with True show ?thesis by (subst lwma_loop.simps) (simp add: window_step)
    next
      case (Some b)
      note IH = "1.IH" [OF True Some refl refl refl refl refl refl]
      show ?thesis
      proof (cases "window tip (i + 1) height")
        case None
        with True Some IH show ?thesis
          by (subst lwma_loop.simps) (simp add: window_step Let_def)
      next
        case bs: (Some bs)
        with True Some IH show ?thesis
          by (subst lwma_loop.simps) (simp add: window_step Let_def clamp_solve_time_def)
      qed
    qed
  qed
qed

lemma length_solve_times: "length (solve_times previous bs) = length bs"
  by (induction bs arbitrary: previous) simp_all

lemma solve_times_forced:
  "j < length bs \<Longrightarrow>
   GetBlockTime (bs ! j) \<le> previous + sum_list (take j (solve_times previous bs)) \<Longrightarrow>
   solve_times previous bs ! j = 1"
proof (induction bs arbitrary: previous j)
  case Nil
  then show ?case by simp
next
  case (Cons b bs)
  show ?case
  proof (cases j)
    case 0
    with Cons.prems show ?thesis by simp
  next
    case (Suc k)
    show ?thesis
    proof (cases "GetBlockTime b > previous")
      case True
      with Cons.prems Suc
      have "GetBlockTime (bs ! k) \<le> GetBlockTime b
              + sum_list (take k (solve_times (GetBlockTime b) bs))" by simp
      with Cons.IH [of k "GetBlockTime b"] Cons.prems(1) Suc True show ?thesis by simp
    next
      case False
      with Cons.prems Suc
      have "GetBlockTime (bs ! k) \<le> (previous + 1)
              + sum_list (take k (solve_times (previous + 1) bs))" by simp
      with Cons.IH [of k "previous + 1"] Cons.prems(1) Suc False show ?thesis by simp
    qed
  qed
qed

lemma effective_timestamp_ge:
  "j < length bs \<Longrightarrow>
   GetBlockTime (bs ! j) \<le> previous + sum_list (take (Suc j) (solve_times previous bs))"
proof (induction bs arbitrary: previous j)
  case Nil
  then show ?case by simp
next
  case (Cons b bs)
  show ?case
  proof (cases j)
    case 0
    then show ?thesis by simp
  next
    case (Suc k)
    show ?thesis
    proof (cases "GetBlockTime b > previous")
      case True
      with Cons.IH [of k "GetBlockTime b"] Cons.prems Suc show ?thesis by simp
    next
      case False
      with Cons.IH [of k "previous + 1"] Cons.prems Suc show ?thesis by simp
    qed
  qed
qed

lemma solve_times_repeated:
  assumes "Suc j < length bs" and "GetBlockTime (bs ! Suc j) \<le> GetBlockTime (bs ! j)"
  shows "solve_times previous bs ! Suc j = 1"
proof -
  from assms(1) have "j < length bs" by simp
  then have "GetBlockTime (bs ! j)
               \<le> previous + sum_list (take (Suc j) (solve_times previous bs))"
    by (rule effective_timestamp_ge)
  with assms(2) have "GetBlockTime (bs ! Suc j)
               \<le> previous + sum_list (take (Suc j) (solve_times previous bs))" by simp
  with assms(1) show ?thesis by (rule solve_times_forced)
qed

lemma solve_times_positive: "st \<in> set (solve_times previous bs) \<Longrightarrow> 1 \<le> st"
  by (induction bs arbitrary: previous) (auto split: if_splits)


lemma those_length: "those xs = Some ys \<Longrightarrow> length ys = length xs"
  by (induction xs arbitrary: ys) (auto split: option.splits)

lemma window_length: "window tip i height = Some bs \<Longrightarrow> length bs = nat (height - i + 1)"
  by (auto simp: window_def dest: those_length)

lemma GetNextWorkRequired_window:
  assumes "wf_chain tip"
    and "switchLWMAblock params \<le> nHeight tip"
    and "1 \<le> nLWMAAveragingWindow params"
    and "nLWMAAveragingWindow params \<le> nHeight tip + 1"
    and "0 < nPowTargetSpacing params"
    and "nLWMAAveragingWindow params * (nLWMAAveragingWindow params + 1)
           * nPowTargetSpacing params < 2 ^ 64"
  shows "\<exists>bs. window tip (nHeight tip - nLWMAAveragingWindow params + 1) (nHeight tip) = Some bs
         \<and> length bs = nat (nLWMAAveragingWindow params)
         \<and> GetNextWorkRequired (Some tip) pBlock params =
             Some (GetCompact
               (let nextTarget =
                      weighted_sum (nPowTargetSpacing params) 1 0 bs
                        (solve_times (GetBlockTime (hd bs)) bs)
                      div scalar64
                        (nLWMAAveragingWindow params * (nLWMAAveragingWindow params + 1)
                           * nPowTargetSpacing params div 2);
                    limit = UintToArith256 (powLimit params);
                    easingTarget = SetCompact (nBits tip) * 6 div 5;
                    tighteningTarget = SetCompact (nBits tip) * 2 div 3
                in if nextTarget > limit then limit
                   else if nextTarget > easingTarget then easingTarget
                   else if nextTarget < tighteningTarget then tighteningTarget
                   else nextTarget))"
proof -
  let ?N = "nLWMAAveragingWindow params"
  let ?T = "nPowTargetSpacing params"
  let ?h = "nHeight tip"
  let ?k = "?N * (?N + 1) * ?T"
  have i0: "0 \<le> ?h - ?N + 1" using assms(4) by simp
  have ih: "?h - ?N + 1 \<le> ?h" using assms(3) by simp
  from GetAncestor_total [OF assms(1) i0 ih] obtain first
    where first: "GetAncestor tip (?h - ?N + 1) = Some first" by blast
  from lwma_loop_total [OF assms(1) i0 order_refl] obtain sumTarget
    where sum: "lwma_loop tip ?T ?h (?h - ?N + 1) 1 (GetBlockTime first) 0 = Some sumTarget"
    by blast
  from sum obtain bs where bs: "window tip (?h - ?N + 1) ?h = Some bs"
    and sw: "sumTarget = weighted_sum ?T 1 0 bs (solve_times (GetBlockTime first) bs)"
    by (auto simp: lwma_loop_window)
  from bs first ih have "hd bs = first" by (auto simp: window_step)
  with sw have sw': "sumTarget = weighted_sum ?T 1 0 bs (solve_times (GetBlockTime (hd bs)) bs)"
    by simp
  have len: "length bs = nat ?N" using window_length [OF bs] by simp
  have NN: "1 * (1 + 1) \<le> ?N * (?N + 1)"
    using assms(3) by (intro mult_mono) simp_all
  have "1 * (1 + 1) * 1 \<le> ?k"
    using NN assms(3,5) by (intro mult_mono) simp_all
  then have k2: "2 \<le> ?k" by simp
  then have kd: "cdiv ?k 2 = ?k div 2" by (simp add: cdiv_nonneg)
  have k1: "1 \<le> ?k div 2" using k2 by simp
  have "?k div 2 < 2 ^ 63" using assms(6) by simp
  with k1 have "is_int64 (?k div 2)" by (simp add: is_int64_def)
  with k1 have k0: "scalar64 (?k div 2) \<noteq> 0" by (simp add: scalar64_eq_0_iff)
  have s6: "scalar32 6 = 6" "scalar32 2 = 2" by (simp_all add: scalar32_def)
  have s5: "scalar64 5 = 5" "scalar64 3 = 3" by (simp_all add: scalar64_def)
  have guard: "\<not> ?h + 1 < ?N" using assms(4) by simp
  have era: "\<not> ?h < switchLWMAblock params" using assms(2) by simp
  have "GetNextWorkRequired (Some tip) pBlock params =
             Some (GetCompact
               (let nextTarget = sumTarget div scalar64 (?k div 2);
                    limit = UintToArith256 (powLimit params);
                    easingTarget = SetCompact (nBits tip) * 6 div 5;
                    tighteningTarget = SetCompact (nBits tip) * 2 div 3
                in if nextTarget > limit then limit
                   else if nextTarget > easingTarget then easingTarget
                   else if nextTarget < tighteningTarget then tighteningTarget
                   else nextTarget))"
    unfolding GetNextWorkRequired_def Let_def
    using guard era first sum k0
    by (simp add: arith_div_def kd s6 s5)
  with bs len show ?thesis unfolding sw' by blast
qed

text \<open>
  C6. The loop of the weighted moving-average retarget returns the weighted sum over the
  window in which each block enters with its clamped solve time, the solve time before the
  clamp being the effective timestamp minus the running previous effective timestamp. For
  every block of a window whose timestamp does not exceed the running previous effective
  timestamp (the start value plus the solve times so far), the effective timestamp is
  previous + 1: its solve time before the clamp is exactly 1. In particular this holds for
  a block whose timestamp repeats, or is earlier than, that of the block before it. The
  last part is the retarget from end to end: the window starts from the timestamp of its
  own first block.
\<close>

theorem C6_monotonic_timestamp:
  "lwma_loop tip T height i weight previousTimestamp sumTarget =
     map_option (\<lambda>bs. weighted_sum T weight sumTarget bs (solve_times previousTimestamp bs))
       (window tip i height)
   \<and> (j < length bs
       \<and> GetBlockTime (bs ! j) \<le> previous + sum_list (take j (solve_times previous bs))
      \<longrightarrow> solve_times previous bs ! j = 1)
   \<and> (Suc j < length bs \<and> GetBlockTime (bs ! Suc j) \<le> GetBlockTime (bs ! j)
      \<longrightarrow> solve_times previous bs ! Suc j = 1)
   \<and> (wf_chain tip
       \<and> switchLWMAblock params \<le> nHeight tip
       \<and> 1 \<le> nLWMAAveragingWindow params
       \<and> nLWMAAveragingWindow params \<le> nHeight tip + 1
       \<and> 0 < nPowTargetSpacing params
       \<and> nLWMAAveragingWindow params * (nLWMAAveragingWindow params + 1)
           * nPowTargetSpacing params < 2 ^ 64
      \<longrightarrow> (\<exists>ws. window tip (nHeight tip - nLWMAAveragingWindow params + 1) (nHeight tip)
                  = Some ws
            \<and> length ws = nat (nLWMAAveragingWindow params)
            \<and> GetNextWorkRequired (Some tip) pBlock params =
                Some (GetCompact
                  (let nextTarget =
                         weighted_sum (nPowTargetSpacing params) 1 0 ws
                           (solve_times (GetBlockTime (hd ws)) ws)
                         div scalar64
                           (nLWMAAveragingWindow params * (nLWMAAveragingWindow params + 1)
                              * nPowTargetSpacing params div 2);
                       limit = UintToArith256 (powLimit params);
                       easingTarget = SetCompact (nBits tip) * 6 div 5;
                       tighteningTarget = SetCompact (nBits tip) * 2 div 3
                   in if nextTarget > limit then limit
                      else if nextTarget > easingTarget then easingTarget
                      else if nextTarget < tighteningTarget then tighteningTarget
                      else nextTarget))))"
proof (intro conjI impI)
  show "lwma_loop tip T height i weight previousTimestamp sumTarget =
     map_option (\<lambda>bs. weighted_sum T weight sumTarget bs (solve_times previousTimestamp bs))
       (window tip i height)"
    by (rule lwma_loop_window)
next
  assume "j < length bs
       \<and> GetBlockTime (bs ! j) \<le> previous + sum_list (take j (solve_times previous bs))"
  then show "solve_times previous bs ! j = 1"
    by (elim conjE) (rule solve_times_forced)
next
  assume "Suc j < length bs \<and> GetBlockTime (bs ! Suc j) \<le> GetBlockTime (bs ! j)"
  then show "solve_times previous bs ! Suc j = 1"
    by (elim conjE) (rule solve_times_repeated)
next
  assume "wf_chain tip
       \<and> switchLWMAblock params \<le> nHeight tip
       \<and> 1 \<le> nLWMAAveragingWindow params
       \<and> nLWMAAveragingWindow params \<le> nHeight tip + 1
       \<and> 0 < nPowTargetSpacing params
       \<and> nLWMAAveragingWindow params * (nLWMAAveragingWindow params + 1)
           * nPowTargetSpacing params < 2 ^ 64"
  then show "\<exists>ws. window tip (nHeight tip - nLWMAAveragingWindow params + 1) (nHeight tip)
                  = Some ws
            \<and> length ws = nat (nLWMAAveragingWindow params)
            \<and> GetNextWorkRequired (Some tip) pBlock params =
                Some (GetCompact
                  (let nextTarget =
                         weighted_sum (nPowTargetSpacing params) 1 0 ws
                           (solve_times (GetBlockTime (hd ws)) ws)
                         div scalar64
                           (nLWMAAveragingWindow params * (nLWMAAveragingWindow params + 1)
                              * nPowTargetSpacing params div 2);
                       limit = UintToArith256 (powLimit params);
                       easingTarget = SetCompact (nBits tip) * 6 div 5;
                       tighteningTarget = SetCompact (nBits tip) * 2 div 3
                   in if nextTarget > limit then limit
                      else if nextTarget > easingTarget then easingTarget
                      else if nextTarget < tighteningTarget then tighteningTarget
                      else nextTarget))"
    by (elim conjE) (rule GetNextWorkRequired_window)
qed

theorem C6_monotonic_timestamp_witness:
  "wf_chain repeat_chain
   \<and> switchLWMAblock (example_params \<lparr> nPowTargetSpacing := 6, switchLWMAblock := 0 \<rparr>)
       \<le> nHeight repeat_chain
   \<and> 1 \<le> nLWMAAveragingWindow
             (example_params \<lparr> nPowTargetSpacing := 6, switchLWMAblock := 0 \<rparr>)
   \<and> nLWMAAveragingWindow (example_params \<lparr> nPowTargetSpacing := 6, switchLWMAblock := 0 \<rparr>)
       \<le> nHeight repeat_chain + 1
   \<and> 0 < nPowTargetSpacing (example_params \<lparr> nPowTargetSpacing := 6, switchLWMAblock := 0 \<rparr>)
   \<and> nLWMAAveragingWindow (example_params \<lparr> nPowTargetSpacing := 6, switchLWMAblock := 0 \<rparr>)
       * (nLWMAAveragingWindow
            (example_params \<lparr> nPowTargetSpacing := 6, switchLWMAblock := 0 \<rparr>) + 1)
       * nPowTargetSpacing (example_params \<lparr> nPowTargetSpacing := 6, switchLWMAblock := 0 \<rparr>)
       < 2 ^ 64
   \<and> Suc 3 < length (the (window repeat_chain 0 8))
   \<and> GetBlockTime (the (window repeat_chain 0 8) ! Suc 3)
       \<le> GetBlockTime (the (window repeat_chain 0 8) ! 3)
   \<and> solve_times 1000000 (the (window repeat_chain 0 8)) ! Suc 3 = 1
   \<and> (0::nat) < length (the (window repeat_chain 0 8))
   \<and> GetBlockTime (the (window repeat_chain 0 8) ! 0)
       \<le> 1000000 + sum_list (take 0 (solve_times 1000000 (the (window repeat_chain 0 8))))
   \<and> solve_times 1000000 (the (window repeat_chain 0 8)) ! 0 = 1
   \<and> solve_times 1000000 (the (window repeat_chain 0 8)) = [1, 5, 6, 6, 1, 5, 6, 6, 6]
   \<and> lwma_loop repeat_chain 6 8 0 1 1000000 0
       = Some (SetCompact 0x1c00ffff * 232)
   \<and> GetNextWorkRequired (Some repeat_chain) (CBlockHeader 1000048)
         (example_params \<lparr> nPowTargetSpacing := 6, switchLWMAblock := 0 \<rparr>)
       = Some 0x1c00dbf7"
proof -
  let ?p = "example_params \<lparr> nPowTargetSpacing := 6, switchLWMAblock := 0 \<rparr>"
  define ws where "ws = the (window repeat_chain 0 8)"
  have h1: "wf_chain repeat_chain" by (simp add: repeat_chain_def)
  have n: "nHeight repeat_chain = 8" by (simp add: repeat_chain_def)
  have nb: "nBits repeat_chain = 0x1c00ffff" by (simp add: repeat_chain_def)
  have N: "nLWMAAveragingWindow ?p = 9" by (simp add: example_params_def)
  have T: "nPowTargetSpacing ?p = 6" by (simp add: example_params_def)
  have h2: "switchLWMAblock ?p \<le> nHeight repeat_chain" by (simp add: n)
  have h3: "1 \<le> nLWMAAveragingWindow ?p" by (simp add: N)
  have h4: "nLWMAAveragingWindow ?p \<le> nHeight repeat_chain + 1" by (simp add: N n)
  have h5: "0 < nPowTargetSpacing ?p" by (simp add: T)
  have h6: "nLWMAAveragingWindow ?p * (nLWMAAveragingWindow ?p + 1) * nPowTargetSpacing ?p
              < 2 ^ 64" by (simp add: N T)
  have u: "[0..8::int] = [0, 1, 2, 3, 4, 5, 6, 7, 8]"
    by (simp add: upto_rec1 [of "0::int" 8] upto_rec1 [of "1::int" 8] upto_rec_numeral)
  have len: "length ws = 9" by (simp add: ws_def window_def repeat_chain_def u)
  have a1: "Suc 3 < length ws" by (simp add: len)
  have a2: "GetBlockTime (ws ! Suc 3) \<le> GetBlockTime (ws ! 3)"
    by (simp add: ws_def window_def repeat_chain_def GetBlockTime_def u)
  have b1: "(0::nat) < length ws" by (simp add: len)
  have b2: "GetBlockTime (ws ! 0) \<le> 1000000 + sum_list (take 0 (solve_times 1000000 ws))"
    by (simp add: ws_def window_def repeat_chain_def GetBlockTime_def u)
  have st: "solve_times 1000000 ws = [1, 5, 6, 6, 1, 5, 6, 6, 6]"
    by (simp add: ws_def window_def repeat_chain_def GetBlockTime_def u)
  have wsome: "window repeat_chain 0 8 = Some ws" by (simp add: ws_def window_def repeat_chain_def u)
  have hd: "GetBlockTime (hd ws) = 1000000"
    by (simp add: ws_def window_def repeat_chain_def GetBlockTime_def u)
  have ws6: "weighted_sum 6 1 0 ws [1, 5, 6, 6, 1, 5, 6, 6, 6] = SetCompact 0x1c00ffff * 232"
    by (simp add: ws_def window_def repeat_chain_def clamp_solve_time_def u eval_codec)
  note W = C6_monotonic_timestamp [where tip = repeat_chain and params = ?p
      and pBlock = "CBlockHeader 1000048" and bs = ws and previous = 1000000]
  from W [where j = 3, THEN conjunct2, THEN conjunct2, THEN conjunct1] a1 a2
  have r1: "solve_times 1000000 ws ! Suc 3 = 1" by (elim impE) (intro conjI)
  from W [where j = 0, THEN conjunct2, THEN conjunct1] b1 b2
  have r2: "solve_times 1000000 ws ! 0 = 1" by (elim impE) (intro conjI)
  from W [where j = 0 and T = 6 and height = 8 and i = 0 and weight = 1
      and previousTimestamp = 1000000 and sumTarget = 0, THEN conjunct1]
  have r3: "lwma_loop repeat_chain 6 8 0 1 1000000 0 = Some (SetCompact 0x1c00ffff * 232)"
    by (simp only: wsome option.map st ws6)
  from W [where j = 0, THEN conjunct2, THEN conjunct2, THEN conjunct2] h1 h2 h3 h4 h5 h6
  have "\<exists>ws. window repeat_chain (nHeight repeat_chain - nLWMAAveragingWindow ?p + 1)
                 (nHeight repeat_chain) = Some ws
            \<and> length ws = nat (nLWMAAveragingWindow ?p)
            \<and> GetNextWorkRequired (Some repeat_chain) (CBlockHeader 1000048) ?p =
                Some (GetCompact
                  (let nextTarget =
                         weighted_sum (nPowTargetSpacing ?p) 1 0 ws
                           (solve_times (GetBlockTime (hd ws)) ws)
                         div scalar64
                           (nLWMAAveragingWindow ?p * (nLWMAAveragingWindow ?p + 1)
                              * nPowTargetSpacing ?p div 2);
                       limit = UintToArith256 (powLimit ?p);
                       easingTarget = SetCompact (nBits repeat_chain) * 6 div 5;
                       tighteningTarget = SetCompact (nBits repeat_chain) * 2 div 3
                   in if nextTarget > limit then limit
                      else if nextTarget > easingTarget then easingTarget
                      else if nextTarget < tighteningTarget then tighteningTarget
                      else nextTarget))"
    by (elim impE) (intro conjI)
  then have E: "\<exists>ws'. window repeat_chain (8 - 9 + 1) 8 = Some ws'
            \<and> length ws' = nat 9
            \<and> GetNextWorkRequired (Some repeat_chain) (CBlockHeader 1000048) ?p =
                Some (GetCompact
                  (let nextTarget =
                         weighted_sum 6 1 0 ws' (solve_times (GetBlockTime (hd ws')) ws')
                         div scalar64 (9 * (9 + 1) * 6 div 2);
                       limit = UintToArith256 (powLimit ?p);
                       easingTarget = SetCompact 0x1c00ffff * 6 div 5;
                       tighteningTarget = SetCompact 0x1c00ffff * 2 div 3
                   in if nextTarget > limit then limit
                      else if nextTarget > easingTarget then easingTarget
                      else if nextTarget < tighteningTarget then tighteningTarget
                      else nextTarget))"
    by (simp only: n nb N T)
  then obtain ws' where w1: "window repeat_chain (8 - 9 + 1) 8 = Some ws'"
    and w2: "GetNextWorkRequired (Some repeat_chain) (CBlockHeader 1000048) ?p =
                Some (GetCompact
                  (let nextTarget =
                         weighted_sum 6 1 0 ws' (solve_times (GetBlockTime (hd ws')) ws')
                         div scalar64 (9 * (9 + 1) * 6 div 2);
                       limit = UintToArith256 (powLimit ?p);
                       easingTarget = SetCompact 0x1c00ffff * 6 div 5;
                       tighteningTarget = SetCompact 0x1c00ffff * 2 div 3
                   in if nextTarget > limit then limit
                      else if nextTarget > easingTarget then easingTarget
                      else if nextTarget < tighteningTarget then tighteningTarget
                      else nextTarget))"
    by (elim exE conjE) (rule that)
  from w1 wsome have wseq: "ws' = ws" by simp
  have fin: "GetCompact
                  (let nextTarget = SetCompact 0x1c00ffff * 232
                         div scalar64 (9 * (9 + 1) * 6 div 2);
                       limit = UintToArith256 (powLimit ?p);
                       easingTarget = SetCompact 0x1c00ffff * 6 div 5;
                       tighteningTarget = SetCompact 0x1c00ffff * 2 div 3
                   in if nextTarget > limit then limit
                      else if nextTarget > easingTarget then easingTarget
                      else if nextTarget < tighteningTarget then tighteningTarget
                      else nextTarget) = 0x1c00dbf7"
    unfolding Let_def by (simp add: example_params_def eval_codec)
  from w2 have r4: "GetNextWorkRequired (Some repeat_chain) (CBlockHeader 1000048) ?p
       = Some 0x1c00dbf7"
    by (simp only: wseq hd st ws6 fin)
  show ?thesis
    unfolding ws_def [symmetric]
    by (intro conjI)
      (rule h1, rule h2, rule h3, rule h4, rule h5, rule h6, rule a1, rule a2, rule r1,
       rule b1, rule b2, rule r2, rule st, rule r3, rule r4)
qed

end
